theory Spec2Isabelle
  imports Main
begin

section \<open>A command-line REST client: response processing and output serialization\<close>

text \<open>
  The development embeds \<^verbatim>\<open>restful.py\<close>: the class \<^verbatim>\<open>RestfulClient\<close> with its
  methods \<^verbatim>\<open>send_request\<close>, \<^verbatim>\<open>process_response\<close> and \<^verbatim>\<open>dump_output\<close>, and
  \<^verbatim>\<open>main\<close>. Printing, file writing and \<^verbatim>\<open>exit(1)\<close> are made explicit: a
  function takes the world (console, files) and returns an outcome, which is either a
  normal return or the termination of the process with an exit code.
\<close>

subsection \<open>Values returned by \<^verbatim>\<open>response.json()\<close>\<close>

text \<open>
  A parsed payload is a Python \<^verbatim>\<open>None\<close>, \<^verbatim>\<open>bool\<close>, \<^verbatim>\<open>int\<close>, \<^verbatim>\<open>float\<close>,
  \<^verbatim>\<open>str\<close>, \<^verbatim>\<open>list\<close> or \<^verbatim>\<open>dict\<close>. A \<^verbatim>\<open>dict\<close> keeps its items in insertion
  order, so it is an association list (its keys are distinct, see \<open>wf_json\<close>). The
  program never computes with a \<^verbatim>\<open>float\<close>, it only renders it, so a float is carried
  by the text \<^verbatim>\<open>repr\<close> gives for it.
\<close>

datatype json =
    JNull
  | JBool bool
  | JInt int
  | JFloat string
  | JStr string
  | JList "json list"
  | JDict "(string \<times> json) list"

subsection \<open>Characters and text\<close>

definition apos :: char where "apos = CHR 0x27"
definition dquote :: char where "dquote = CHR 0x22"
definition backslash :: char where "backslash = CHR 0x5C"
definition LF :: char where "LF = CHR 0x0A"
definition CR :: char where "CR = CHR 0x0D"
definition TAB :: char where "TAB = CHR 0x09"
definition BS :: char where "BS = CHR 0x08"
definition FF :: char where "FF = CHR 0x0C"

text \<open>\<^verbatim>\<open>sep.join(parts)\<close>\<close>

fun join_str :: "string \<Rightarrow> string list \<Rightarrow> string" where
  "join_str sep [] = []"
| "join_str sep [x] = x"
| "join_str sep (x # y # ys) = x @ sep @ join_str sep (y # ys)"

text \<open>\<^verbatim>\<open>s.endswith(suf)\<close>\<close>

definition endswith :: "string \<Rightarrow> string \<Rightarrow> bool" where
  "endswith s suf \<longleftrightarrow> length suf \<le> length s \<and> drop (length s - length suf) s = suf"

text \<open>\<^verbatim>\<open>str(n)\<close> of a Python \<^verbatim>\<open>int\<close>: decimal digits, a minus sign when negative.\<close>

definition digit_char :: "nat \<Rightarrow> char" where
  "digit_char d = char_of (48 + d)"

function str_nat :: "nat \<Rightarrow> string" where
  "str_nat n = (if n < 10 then [digit_char n] else str_nat (n div 10) @ [digit_char (n mod 10)])"
  by pat_completeness auto
termination
  by (relation "measure id") auto

declare str_nat.simps [simp del]

definition str_int :: "int \<Rightarrow> string" where
  "str_int i = (if i < 0 then CHR ''-'' # str_nat (nat (- i)) else str_nat (nat i))"

text \<open>Lower-case hexadecimal digits, as in \<^verbatim>\<open>'\\u{0:04x}'\<close> and \<^verbatim>\<open>\\xhh\<close>.\<close>

definition hex_digit :: "nat \<Rightarrow> char" where
  "hex_digit d = (if d < 10 then char_of (48 + d) else char_of (87 + d))"

definition hex2 :: "nat \<Rightarrow> string" where
  "hex2 n = [hex_digit (n div 16 mod 16), hex_digit (n mod 16)]"

definition hex4 :: "nat \<Rightarrow> string" where
  "hex4 n = [hex_digit (n div 4096 mod 16), hex_digit (n div 256 mod 16),
             hex_digit (n div 16 mod 16), hex_digit (n mod 16)]"

subsection \<open>\<^verbatim>\<open>json.dumps(data, indent=2)\<close>\<close>

text \<open>
  The encoder of the standard library with its defaults and \<^verbatim>\<open>indent=2\<close>:
  \<^verbatim>\<open>ensure_ascii\<close> escapes every character outside \<^verbatim>\<open>' '..'~'\<close> and the two characters
  \<^verbatim>\<open>"\<close> and \<^verbatim>\<open>\\<close>; items are separated by \<^verbatim>\<open>","\<close> and a new line indented by two
  blanks per nesting level, a key from its value by \<^verbatim>\<open>": "\<close>; an empty list is
  \<^verbatim>\<open>[]\<close>, an empty dict \<^verbatim>\<open>{}\<close>.
\<close>

definition escape_char :: "char \<Rightarrow> string" where
  "escape_char c =
     (if c = backslash then [backslash, backslash]
      else if c = dquote then [backslash, dquote]
      else if c = BS then [backslash, CHR ''b'']
      else if c = FF then [backslash, CHR ''f'']
      else if c = LF then [backslash, CHR ''n'']
      else if c = CR then [backslash, CHR ''r'']
      else if c = TAB then [backslash, CHR ''t'']
      else if 32 \<le> (of_char c :: nat) \<and> (of_char c :: nat) \<le> 126 then [c]
      else backslash # CHR ''u'' # hex4 (of_char c))"

definition encode_basestring_ascii :: "string \<Rightarrow> string" where
  "encode_basestring_ascii s = dquote # concat (map escape_char s) @ [dquote]"

text \<open>\<^verbatim>\<open>floatstr\<close>: the \<^verbatim>\<open>repr\<close> of a float, except for the three non-finite values.\<close>

definition floatstr :: "string \<Rightarrow> string" where
  "floatstr s =
     (if s = ''nan'' then ''NaN''
      else if s = ''inf'' then ''Infinity''
      else if s = ''-inf'' then ''-Infinity''
      else s)"

definition newline_indent :: "nat \<Rightarrow> string" where
  "newline_indent lvl = LF # replicate (2 * lvl) CHR '' ''"

fun json_encode :: "nat \<Rightarrow> json \<Rightarrow> string" where
  "json_encode lvl JNull = ''null''"
| "json_encode lvl (JBool b) = (if b then ''true'' else ''false'')"
| "json_encode lvl (JInt i) = str_int i"
| "json_encode lvl (JFloat s) = floatstr s"
| "json_encode lvl (JStr s) = encode_basestring_ascii s"
| "json_encode lvl (JList xs) =
     (if xs = [] then ''[]''
      else ''['' @ newline_indent (Suc lvl)
           @ join_str ('','' @ newline_indent (Suc lvl)) (map (json_encode (Suc lvl)) xs)
           @ newline_indent lvl @ '']'')"
| "json_encode lvl (JDict kvs) =
     (if kvs = [] then ''{}''
      else ''{'' @ newline_indent (Suc lvl)
           @ join_str ('','' @ newline_indent (Suc lvl))
               (map (\<lambda>kv. encode_basestring_ascii (fst kv) @ '': '' @ json_encode (Suc lvl) (snd kv)) kvs)
           @ newline_indent lvl @ ''}'')"

definition json_dumps :: "json \<Rightarrow> string" where
  "json_dumps data = json_encode 0 data"

subsection \<open>\<^verbatim>\<open>csv.writer(csv_file).writerow(fields)\<close>\<close>

text \<open>
  A field that is neither a \<^verbatim>\<open>str\<close> nor \<^verbatim>\<open>None\<close> is written as \<^verbatim>\<open>str(field)\<close>;
  for a list or a dict that is its \<^verbatim>\<open>repr\<close>.
\<close>

definition repr_quote :: "string \<Rightarrow> char" where
  "repr_quote s = (if apos \<in> set s \<and> dquote \<notin> set s then dquote else apos)"

definition repr_char :: "char \<Rightarrow> char \<Rightarrow> string" where
  "repr_char q c =
     (if c = q \<or> c = backslash then [backslash, c]
      else if c = TAB then [backslash, CHR ''t'']
      else if c = LF then [backslash, CHR ''n'']
      else if c = CR then [backslash, CHR ''r'']
      else if (of_char c :: nat) < 32 \<or> (of_char c :: nat) = 127 then backslash # CHR ''x'' # hex2 (of_char c)
      else if (of_char c :: nat) < 127 then [c]
      else if (of_char c :: nat) < 161 \<or> (of_char c :: nat) = 173 then backslash # CHR ''x'' # hex2 (of_char c)
      else [c])"

definition repr_str :: "string \<Rightarrow> string" where
  "repr_str s = repr_quote s # concat (map (repr_char (repr_quote s)) s) @ [repr_quote s]"

fun py_repr :: "json \<Rightarrow> string" where
  "py_repr JNull = ''None''"
| "py_repr (JBool b) = (if b then ''True'' else ''False'')"
| "py_repr (JInt i) = str_int i"
| "py_repr (JFloat s) = s"
| "py_repr (JStr s) = repr_str s"
| "py_repr (JList xs) = ''['' @ join_str '', '' (map py_repr xs) @ '']''"
| "py_repr (JDict kvs) =
     ''{'' @ join_str '', '' (map (\<lambda>kv. repr_str (fst kv) @ '': '' @ py_repr (snd kv)) kvs) @ ''}''"

fun field_text :: "json \<Rightarrow> string" where
  "field_text (JStr s) = s"
| "field_text JNull = []"
| "field_text v = py_repr v"

text \<open>
  The default dialect: delimiter \<^verbatim>\<open>,\<close>, quote character \<^verbatim>\<open>"\<close> doubled inside a quoted
  field, minimal quoting, line terminator \<^verbatim>\<open>\r\n\<close>. A record whose only field is empty is
  written as \<^verbatim>\<open>""\<close>.
\<close>

definition needs_quote :: "string \<Rightarrow> bool" where
  "needs_quote s = list_ex (\<lambda>c. c = CHR '','' \<or> c = dquote \<or> c = CR \<or> c = LF) s"

definition csv_field :: "string \<Rightarrow> string" where
  "csv_field s =
     (if needs_quote s
      then dquote # concat (map (\<lambda>c. if c = dquote then [dquote, dquote] else [c]) s) @ [dquote]
      else s)"

definition writerow :: "json list \<Rightarrow> string" where
  "writerow fields =
     (let record = join_str '','' (map (csv_field \<circ> field_text) fields)
      in (if fields \<noteq> [] \<and> record = [] then [dquote, dquote] else record) @ [CR, LF])"

subsection \<open>The world: console, files, exit\<close>

text \<open>
  \<open>console\<close> holds the texts printed so far, one per \<^verbatim>\<open>print\<close> call; \<open>files\<close> maps a
  path to the content of the file there; \<open>open_error\<close> gives, for a path that cannot be
  opened for writing, the text of the exception \<^verbatim>\<open>open(path, "w")\<close> raises.
\<close>

record world =
  console :: "string list"
  files :: "string \<rightharpoonup> string"
  open_error :: "string \<Rightarrow> string option"

text \<open>A call returns, or \<^verbatim>\<open>exit(code)\<close> ends the process inside it.\<close>

datatype outcome = Return world | Exit int world

fun final :: "outcome \<Rightarrow> world" where
  "final (Return w) = w"
| "final (Exit code w) = w"

text \<open>The exit code of the process when the call is the last thing \<^verbatim>\<open>main\<close> does.\<close>

fun exit_status :: "outcome \<Rightarrow> int" where
  "exit_status (Return w) = 0"
| "exit_status (Exit code w) = code"

definition print :: "string \<Rightarrow> world \<Rightarrow> world" where
  "print s w = w\<lparr>console := console w @ [s]\<rparr>"

text \<open>\<^verbatim>\<open>open(path, "w")\<close> raises, or leaves an empty file at the path.\<close>

definition open_w :: "string \<Rightarrow> world \<Rightarrow> string + world" where
  "open_w path w =
     (case open_error w path of
        Some msg \<Rightarrow> Inl msg
      | None \<Rightarrow> Inr (w\<lparr>files := (files w)(path \<mapsto> [])\<rparr>))"

definition fwrite :: "string \<Rightarrow> string \<Rightarrow> world \<Rightarrow> world" where
  "fwrite path s w =
     w\<lparr>files := (files w)(path \<mapsto> (case files w path of None \<Rightarrow> [] | Some old \<Rightarrow> old) @ s)\<rparr>"

text \<open>The text of the \<^verbatim>\<open>AttributeError\<close> for \<^verbatim>\<open>v.attr\<close> on a value that has no such method.\<close>

fun type_name :: "json \<Rightarrow> string" where
  "type_name JNull = ''NoneType''"
| "type_name (JBool b) = ''bool''"
| "type_name (JInt i) = ''int''"
| "type_name (JFloat s) = ''float''"
| "type_name (JStr s) = ''str''"
| "type_name (JList xs) = ''list''"
| "type_name (JDict kvs) = ''dict''"

definition no_attribute :: "json \<Rightarrow> string \<Rightarrow> string" where
  "no_attribute v attr =
     apos # type_name v @ apos # '' object has no attribute '' @ apos # attr @ [apos]"

subsection \<open>\<^verbatim>\<open>RestfulClient\<close>\<close>

record client =
  "method" :: string
  endpoint :: string
  data :: "string option"
  "output" :: "string option"

definition BASE_URL :: string where
  "BASE_URL = ''https://jsonplaceholder.typicode.com''"

text \<open>\<^verbatim>\<open>__init__\<close>\<close>

definition RestfulClient :: "string \<Rightarrow> string \<Rightarrow> string option \<Rightarrow> client" where
  "RestfulClient m e d = \<lparr>method = m, endpoint = e, data = d, output = None\<rparr>"

text \<open>
  The response of the HTTP library: \<open>json_result\<close> is what \<^verbatim>\<open>response.json()\<close> does,
  \<open>Inr\<close> the parsed body, \<open>Inl\<close> the text of the exception it raises on a body that is
  not JSON.
\<close>

record response =
  status_code :: int
  reason :: string
  url :: string
  "text" :: string
  json_result :: "string + json"

text \<open>
  \<^verbatim>\<open>response.raise_for_status()\<close> raises an \<^verbatim>\<open>HTTPError\<close> for the 4XX and 5XX codes
  and for no other; \<open>Some\<close> is the text of the exception.
\<close>

definition raise_for_status :: "response \<Rightarrow> string option" where
  "raise_for_status r =
     (if 400 \<le> status_code r \<and> status_code r < 500
      then Some (str_int (status_code r) @ '' Client Error: '' @ reason r @ '' for url: '' @ url r)
      else if 500 \<le> status_code r \<and> status_code r < 600
      then Some (str_int (status_code r) @ '' Server Error: '' @ reason r @ '' for url: '' @ url r)
      else None)"

text \<open>
  The transport: \<^verbatim>\<open>requests.get(url)\<close> and \<^verbatim>\<open>requests.post(url, data, headers)\<close>.
\<close>

record transport =
  http_get :: "string \<Rightarrow> response"
  http_post :: "string \<Rightarrow> string option \<Rightarrow> (string \<times> string) list \<Rightarrow> response"

definition send_request :: "client \<Rightarrow> transport \<Rightarrow> response option" where
  "send_request c net =
     (let url = BASE_URL @ endpoint c
      in if method c = ''get'' then Some (http_get net url)
         else if method c = ''post''
         then Some (http_post net url (data c) [(''Content-Type'', ''application/json'')])
         else None)"

subsection \<open>\<^verbatim>\<open>dump_output\<close>\<close>

text \<open>
  The body of the \<^verbatim>\<open>try\<close> either completes (\<open>Inr\<close>) or raises (\<open>Inl\<close>, the text of the
  exception and the world at that moment).
\<close>

type_synonym attempt = "(string \<times> world) + world"

text \<open>\<^verbatim>\<open>with open(self.output, "w") as json_file: json.dump(data, json_file, indent=2)\<close>\<close>

definition write_json :: "string \<Rightarrow> json \<Rightarrow> world \<Rightarrow> attempt" where
  "write_json path d w =
     (case open_w path w of
        Inl msg \<Rightarrow> Inl (msg, w)
      | Inr w1 \<Rightarrow> Inr (fwrite path (json_dumps d) w1))"

text \<open>\<^verbatim>\<open>for row in data: writer.writerow(row.values())\<close>\<close>

fun write_rows :: "string \<Rightarrow> json list \<Rightarrow> world \<Rightarrow> attempt" where
  "write_rows path [] w = Inr w"
| "write_rows path (JDict kvs # rest) w = write_rows path rest (fwrite path (writerow (map snd kvs)) w)"
| "write_rows path (row # rest) w = Inl (no_attribute row ''values'', w)"

text \<open>\<^verbatim>\<open>writer.writerow(data[0].keys())\<close>, then the rows.\<close>

fun write_table :: "string \<Rightarrow> json list \<Rightarrow> world \<Rightarrow> attempt" where
  "write_table path (JDict kvs # rest) w =
     write_rows path (JDict kvs # rest) (fwrite path (writerow (map (JStr \<circ> fst) kvs)) w)"
| "write_table path (first # rest) w = Inl (no_attribute first ''keys'', w)"
| "write_table path [] w = Inr w"

text \<open>The \<^verbatim>\<open>.csv\<close> branch: \<^verbatim>\<open>if isinstance(data, list) and data: ... else: print(...)\<close>\<close>

fun write_csv :: "string \<Rightarrow> json \<Rightarrow> world \<Rightarrow> attempt" where
  "write_csv path (JList (first # rest)) w =
     (case open_w path w of
        Inl msg \<Rightarrow> Inl (msg, w)
      | Inr w1 \<Rightarrow> write_table path (first # rest) w1)"
| "write_csv path d w = Inr (print ''Invalid data format for CSV output.'' w)"

text \<open>\<^verbatim>\<open>except Exception as err: print(f"Error while writing output: {err}"); exit(1)\<close>\<close>

fun handle_output_error :: "attempt \<Rightarrow> outcome" where
  "handle_output_error (Inr w) = Return w"
| "handle_output_error (Inl (err, w)) = Exit 1 (print (''Error while writing output: '' @ err) w)"

definition dump_output :: "client \<Rightarrow> json \<Rightarrow> world \<Rightarrow> outcome" where
  "dump_output c d w =
     (case output c of
        None \<Rightarrow> Return (print (json_dumps d) w)
      | Some path \<Rightarrow>
          if path \<noteq> [] then
            handle_output_error
              (if endswith path ''.json'' then write_json path d w
               else if endswith path ''.csv'' then write_csv path d w
               else Inr (print (json_dumps d) w))
          else Return (print (json_dumps d) w))"

subsection \<open>\<^verbatim>\<open>process_response\<close>\<close>

text \<open>
  \<^verbatim>\<open>exit(1)\<close> raises \<^verbatim>\<open>SystemExit\<close>, which is no \<^verbatim>\<open>Exception\<close>: neither handler
  catches it, so an exit inside \<^verbatim>\<open>dump_output\<close> ends the process. With no response
  at all, reading \<^verbatim>\<open>response.status_code\<close> raises and the second handler prints.
\<close>

definition status_line :: "response \<Rightarrow> string" where
  "status_line r = ''HTTP Status Code: '' @ str_int (status_code r)"

definition process_response :: "client \<Rightarrow> response option \<Rightarrow> world \<Rightarrow> outcome" where
  "process_response c resp w =
     (case resp of
        None \<Rightarrow> Exit 1 (print (''Error: '' @ no_attribute JNull ''status_code'') w)
      | Some r \<Rightarrow>
          let w1 = print (status_line r) w in
          (case raise_for_status r of
             Some http_err \<Rightarrow> Exit 1 (print (''HTTP Error: '' @ http_err) w1)
           | None \<Rightarrow>
               if method c = ''get'' then
                 (case json_result r of
                    Inl err \<Rightarrow> Exit 1 (print (''Error: '' @ err) w1)
                  | Inr payload \<Rightarrow> dump_output c payload w1)
               else if method c = ''post'' then
                 (case json_result r of
                    Inl err \<Rightarrow> Exit 1 (print (''Error: '' @ err) w1)
                  | Inr payload \<Rightarrow>
                      (case dump_output c payload w1 of
                         Exit code w2 \<Rightarrow> Exit code w2
                       | Return w2 \<Rightarrow>
                           if status_code r = 201 then Return (print ''Post request successful.'' w2)
                           else Exit 1 (print (''Error: '' @ text r) w2)))
               else Return w1))"

subsection \<open>\<^verbatim>\<open>main\<close>\<close>

record args =
  arg_method :: string
  arg_endpoint :: string
  arg_data :: "string option"
  arg_output :: "string option"

definition main :: "args \<Rightarrow> transport \<Rightarrow> world \<Rightarrow> outcome" where
  "main a net w =
     (let c0 = RestfulClient (arg_method a) (arg_endpoint a) (arg_data a);
          c = (case arg_output a of
                 None \<Rightarrow> c0\<lparr>output := None\<rparr>
               | Some p \<Rightarrow> if p \<noteq> [] then c0\<lparr>output := Some p\<rparr> else c0\<lparr>output := None\<rparr>)
      in process_response c (send_request c net) w)"

subsection \<open>\<^verbatim>\<open>json.load\<close>: reading a written file back\<close>

text \<open>
  The program never reads its output; the round trip of the specification does, with the
  decoder of the standard library. Its scanner is modelled here: white space is skipped
  between tokens, a number is the longest match of
  \<^verbatim>\<open>-?(0|[1-9]\d*)(\.\d+)?([eE][-+]?\d+)?\<close>, a string ends at the first unescaped
  \<^verbatim>\<open>"\<close> and may not hold a control character, the pairs of an object are made into a
  \<^verbatim>\<open>dict\<close> (a later pair with the same key replaces the value of the earlier one).
  The nesting of arrays and objects is followed with fuel, one unit per nested call;
  \<open>json_loads\<close> gives as much fuel as the text has characters. The conversion of a
  number with a fraction or an exponent to a \<^verbatim>\<open>float\<close> is a parameter, \<open>float_repr\<close>:
  the \<^verbatim>\<open>repr\<close> of the float that \<^verbatim>\<open>float(token)\<close> is. A \<^verbatim>\<open>\uXXXX\<close> escape above
  \<^verbatim>\<open>\u00ff\<close> has no character in this model of text and is refused.
\<close>

definition is_ws :: "char \<Rightarrow> bool" where
  "is_ws c \<longleftrightarrow> c = CHR '' '' \<or> c = TAB \<or> c = LF \<or> c = CR"

definition skip_ws :: "string \<Rightarrow> string" where
  "skip_ws s = dropWhile is_ws s"

definition is_digit :: "char \<Rightarrow> bool" where
  "is_digit c \<longleftrightarrow> 48 \<le> (of_char c :: nat) \<and> (of_char c :: nat) \<le> 57"

definition digits_value :: "string \<Rightarrow> nat" where
  "digits_value ds = foldl (\<lambda>a c. 10 * a + (of_char c - 48)) 0 ds"

definition match_integer :: "string \<Rightarrow> string" where
  "match_integer s =
     (case s of
        [] \<Rightarrow> []
      | c # t \<Rightarrow> if c = CHR ''0'' then [c] else if is_digit c then c # takeWhile is_digit t else [])"

definition match_frac :: "string \<Rightarrow> string" where
  "match_frac s =
     (case s of
        [] \<Rightarrow> []
      | c # t \<Rightarrow> if c = CHR ''.'' \<and> takeWhile is_digit t \<noteq> [] then c # takeWhile is_digit t else [])"

definition match_exp :: "string \<Rightarrow> string" where
  "match_exp s =
     (case s of
        [] \<Rightarrow> []
      | e # t \<Rightarrow>
          if e = CHR ''e'' \<or> e = CHR ''E'' then
            (case t of
               [] \<Rightarrow> []
             | c # u \<Rightarrow>
                 if c = CHR ''+'' \<or> c = CHR ''-''
                 then (if takeWhile is_digit u \<noteq> [] then e # c # takeWhile is_digit u else [])
                 else (if takeWhile is_digit t \<noteq> [] then e # takeWhile is_digit t else []))
          else [])"

definition match_number :: "(string \<Rightarrow> string) \<Rightarrow> string \<Rightarrow> (json \<times> string) option" where
  "match_number float_repr s =
     (let negative = (s \<noteq> [] \<and> hd s = CHR ''-'');
          s1 = (if negative then tl s else s);
          integer = match_integer s1;
          s2 = drop (length integer) s1;
          frac = match_frac s2;
          s3 = drop (length frac) s2;
          exp = match_exp s3;
          rest = drop (length exp) s3
      in if integer = [] then None
         else if frac = [] \<and> exp = []
         then Some (JInt (if negative then - int (digits_value integer) else int (digits_value integer)), rest)
         else Some (JFloat (float_repr ((if negative then ''-'' else []) @ integer @ frac @ exp)), rest))"

definition hex_value :: "char \<Rightarrow> nat option" where
  "hex_value c =
     (let n = (of_char c :: nat)
      in if 48 \<le> n \<and> n \<le> 57 then Some (n - 48)
         else if 97 \<le> n \<and> n \<le> 102 then Some (n - 87)
         else if 65 \<le> n \<and> n \<le> 70 then Some (n - 55)
         else None)"

definition decode_uXXXX :: "string \<Rightarrow> nat option" where
  "decode_uXXXX s =
     (case map hex_value (take 4 s) of
        [Some a, Some b, Some c, Some d] \<Rightarrow> Some (4096 * a + 256 * b + 16 * c + d)
      | _ \<Rightarrow> None)"

definition backslash_table :: "char \<Rightarrow> char option" where
  "backslash_table e =
     (if e = dquote then Some dquote
      else if e = backslash then Some backslash
      else if e = CHR ''/'' then Some CHR ''/''
      else if e = CHR ''b'' then Some BS
      else if e = CHR ''f'' then Some FF
      else if e = CHR ''n'' then Some LF
      else if e = CHR ''r'' then Some CR
      else if e = CHR ''t'' then Some TAB
      else None)"

fun cons_result :: "'a \<Rightarrow> ('a list \<times> string) option \<Rightarrow> ('a list \<times> string) option" where
  "cons_result x None = None"
| "cons_result x (Some (xs, rest)) = Some (x # xs, rest)"

text \<open>\<^verbatim>\<open>scanstring\<close>, from the character after the opening quote.\<close>

fun scanstring :: "string \<Rightarrow> (string \<times> string) option" where
  "scanstring [] = None"
| "scanstring (c # s) =
     (if c = dquote then Some ([], s)
      else if c = backslash then
        (case s of
           [] \<Rightarrow> None
         | e # t \<Rightarrow>
             if e = CHR ''u'' then
               (case decode_uXXXX t of
                  None \<Rightarrow> None
                | Some n \<Rightarrow> if n < 256 then cons_result (char_of n) (scanstring (drop 4 t)) else None)
             else
               (case backslash_table e of
                  None \<Rightarrow> None
                | Some ch \<Rightarrow> cons_result ch (scanstring t)))
      else if (of_char c :: nat) < 32 then None
      else cons_result c (scanstring s))"

text \<open>\<^verbatim>\<open>d[k] = v\<close> and \<^verbatim>\<open>dict(pairs)\<close>\<close>

fun dict_set :: "string \<Rightarrow> json \<Rightarrow> (string \<times> json) list \<Rightarrow> (string \<times> json) list" where
  "dict_set k v [] = [(k, v)]"
| "dict_set k v ((k', v') # kvs) = (if k' = k then (k, v) # kvs else (k', v') # dict_set k v kvs)"

definition dict_of_pairs :: "(string \<times> json) list \<Rightarrow> (string \<times> json) list" where
  "dict_of_pairs pairs = foldl (\<lambda>d kv. dict_set (fst kv) (snd kv) d) [] pairs"

text \<open>\<^verbatim>\<open>scan_once\<close>, \<^verbatim>\<open>JSONArray\<close> and \<^verbatim>\<open>JSONObject\<close>\<close>

fun scan_once :: "(string \<Rightarrow> string) \<Rightarrow> nat \<Rightarrow> string \<Rightarrow> (json \<times> string) option"
  and parse_array :: "(string \<Rightarrow> string) \<Rightarrow> nat \<Rightarrow> string \<Rightarrow> (json list \<times> string) option"
  and parse_object :: "(string \<Rightarrow> string) \<Rightarrow> nat \<Rightarrow> string \<Rightarrow> ((string \<times> json) list \<times> string) option"
where
  "scan_once fr 0 s = None"
| "scan_once fr (Suc n) s =
     (case s of
        [] \<Rightarrow> None
      | c # t \<Rightarrow>
          if c = dquote then
            (case scanstring t of None \<Rightarrow> None | Some (str, rest) \<Rightarrow> Some (JStr str, rest))
          else if c = CHR ''{'' then
            (case skip_ws t of
               [] \<Rightarrow> None
             | d # u \<Rightarrow>
                 if d = CHR ''}'' then Some (JDict [], u)
                 else (case parse_object fr n (d # u) of
                         None \<Rightarrow> None
                       | Some (pairs, rest) \<Rightarrow> Some (JDict (dict_of_pairs pairs), rest)))
          else if c = CHR ''['' then
            (case skip_ws t of
               [] \<Rightarrow> None
             | d # u \<Rightarrow>
                 if d = CHR '']'' then Some (JList [], u)
                 else (case parse_array fr n (d # u) of
                         None \<Rightarrow> None
                       | Some (vals, rest) \<Rightarrow> Some (JList vals, rest)))
          else if take 4 s = ''null'' then Some (JNull, drop 4 s)
          else if take 4 s = ''true'' then Some (JBool True, drop 4 s)
          else if take 5 s = ''false'' then Some (JBool False, drop 5 s)
          else
            (case match_number fr s of
               Some r \<Rightarrow> Some r
             | None \<Rightarrow>
                 if take 3 s = ''NaN'' then Some (JFloat ''nan'', drop 3 s)
                 else if take 8 s = ''Infinity'' then Some (JFloat ''inf'', drop 8 s)
                 else if take 9 s = ''-Infinity'' then Some (JFloat ''-inf'', drop 9 s)
                 else None))"
| "parse_array fr 0 s = None"
| "parse_array fr (Suc n) s =
     (case scan_once fr n s of
        None \<Rightarrow> None
      | Some (v, r) \<Rightarrow>
          (case skip_ws r of
             [] \<Rightarrow> None
           | d # u \<Rightarrow>
               if d = CHR '']'' then Some ([v], u)
               else if d = CHR '','' then cons_result v (parse_array fr n (skip_ws u))
               else None))"
| "parse_object fr 0 s = None"
| "parse_object fr (Suc n) s =
     (case s of
        [] \<Rightarrow> None
      | q # t \<Rightarrow>
          if q \<noteq> dquote then None
          else
            (case scanstring t of
               None \<Rightarrow> None
             | Some (key, r) \<Rightarrow>
                 (case skip_ws r of
                    [] \<Rightarrow> None
                  | colon # r1 \<Rightarrow>
                      if colon \<noteq> CHR '':'' then None
                      else
                        (case scan_once fr n (skip_ws r1) of
                           None \<Rightarrow> None
                         | Some (v, r2) \<Rightarrow>
                             (case skip_ws r2 of
                                [] \<Rightarrow> None
                              | d # u \<Rightarrow>
                                  if d = CHR ''}'' then Some ([(key, v)], u)
                                  else if d = CHR '','' then cons_result (key, v) (parse_object fr n (skip_ws u))
                                  else None)))))"

text \<open>\<^verbatim>\<open>json.loads(s)\<close>: one value, white space around it, nothing else.\<close>

definition json_loads :: "(string \<Rightarrow> string) \<Rightarrow> string \<Rightarrow> json option" where
  "json_loads fr s =
     (case scan_once fr (length s) (skip_ws s) of
        None \<Rightarrow> None
      | Some (v, rest) \<Rightarrow> if skip_ws rest = [] then Some v else None)"

text \<open>\<^verbatim>\<open>json.load(open(path))\<close> in a given world.\<close>

definition read_json :: "(string \<Rightarrow> string) \<Rightarrow> string \<Rightarrow> world \<Rightarrow> json option" where
  "read_json float_repr path w =
     (case files w path of
        None \<Rightarrow> None
      | Some written \<Rightarrow> json_loads float_repr written)"

subsection \<open>Payloads as Python has them\<close>

text \<open>
  Every \<^verbatim>\<open>dict\<close> has distinct keys. Every \<^verbatim>\<open>float\<close> is carried by its \<^verbatim>\<open>repr\<close>:
  \<^verbatim>\<open>nan\<close>, \<^verbatim>\<open>inf\<close>, \<^verbatim>\<open>-inf\<close>, or a number with a fraction or an exponent that
  reads back as the same float (\<open>float_repr\<close> gives the text itself).
\<close>

fun wf_json :: "(string \<Rightarrow> string) \<Rightarrow> json \<Rightarrow> bool" where
  "wf_json fr (JFloat s) \<longleftrightarrow>
     s = ''nan'' \<or> s = ''inf'' \<or> s = ''-inf'' \<or> match_number fr s = Some (JFloat s, [])"
| "wf_json fr (JList xs) \<longleftrightarrow> list_all (wf_json fr) xs"
| "wf_json fr (JDict kvs) \<longleftrightarrow> distinct (map fst kvs) \<and> list_all (\<lambda>kv. wf_json fr (snd kv)) kvs"
| "wf_json fr v \<longleftrightarrow> True"

text \<open>
  What may follow an encoded value in the encoder's output, and what an encoded value
  may start with.
\<close>

definition boundary :: "string \<Rightarrow> bool" where
  "boundary rest \<longleftrightarrow> rest = [] \<or> hd rest = CHR '','' \<or> hd rest = LF"

definition value_start :: "char \<Rightarrow> bool" where
  "value_start c \<longleftrightarrow> \<not> is_ws c \<and> c \<noteq> CHR '']'' \<and> c \<noteq> CHR ''}''"

subsection \<open>The output targets of the specification\<close>

text \<open>
  The specification names three sinks and a selection policy: a path ending in
  \<^verbatim>\<open>.json\<close> selects the JSON file, a path ending in \<^verbatim>\<open>.csv\<close> the CSV file, no path
  or any other ending standard output. \<open>select_target\<close> follows these words; the
  code has no such function, it branches inside \<^verbatim>\<open>dump_output\<close>.
\<close>

datatype OutputTarget = Stdout | JsonFile string | CsvFile string

definition select_target :: "string option \<Rightarrow> OutputTarget" where
  "select_target out =
     (case out of
        None \<Rightarrow> Stdout
      | Some path \<Rightarrow>
          if endswith path ''.json'' then JsonFile path
          else if endswith path ''.csv'' then CsvFile path
          else Stdout)"

text \<open>
  The shape the \<^verbatim>\<open>.csv\<close> branch asks for, \<^verbatim>\<open>isinstance(data, list) and data\<close>:
  the first pattern of \<open>write_csv\<close>.
\<close>

fun is_nonempty_list :: "json \<Rightarrow> bool" where
  "is_nonempty_list (JList (first # rest)) = True"
| "is_nonempty_list d = False"

subsection \<open>Sample runs\<close>

text \<open>A fresh run: nothing printed, no file, every path can be opened.\<close>

definition w_init :: world where
  "w_init = \<lparr>console = [], files = Map.empty, open_error = (\<lambda>p. None)\<rparr>"

definition users :: json where
  "users = JList [JDict [(''id'', JInt 1), (''name'', JStr ''a'')],
                  JDict [(''id'', JInt 2), (''name'', JStr ''b'')]]"

definition user1 :: json where
  "user1 = JDict [(''id'', JInt 1), (''name'', JStr ''a'')]"

definition getter :: "string option \<Rightarrow> client" where
  "getter out = (RestfulClient ''get'' ''/users'' None)\<lparr>output := out\<rparr>"

definition poster :: "string option \<Rightarrow> client" where
  "poster out = (RestfulClient ''post'' ''/users'' (Some ''name=a''))\<lparr>output := out\<rparr>"

definition reply :: "int \<Rightarrow> string \<Rightarrow> string \<Rightarrow> json \<Rightarrow> response" where
  "reply code rsn body v =
     \<lparr>status_code = code, reason = rsn, url = BASE_URL @ ''/users'', text = body, json_result = Inr v\<rparr>"

definition measured :: json where
  "measured = JDict [(''id'', JInt 1), (''name'', JStr ''a''), (''ratio'', JFloat ''1.5''),
                     (''tags'', JList [JNull, JBool True])]"

text \<open>A transport that answers every request with the same response.\<close>

definition always :: "response \<Rightarrow> transport" where
  "always r = \<lparr>http_get = (\<lambda>u. r), http_post = (\<lambda>u d h. r)\<rparr>"

definition get_users :: args where
  "get_users = \<lparr>arg_method = ''get'', arg_endpoint = ''/users'', arg_data = None, arg_output = None\<rparr>"


text \<open>Two bodies of a response, each with the text it is parsed from.\<close>

definition pair :: json where
  "pair = JList [JInt 1, JInt 2]"

definition pair_text :: string where
  "pair_text = ''[1, 2]''"

definition ids :: json where
  "ids = JList [JDict [(''id'', JInt 1)], JDict [(''id'', JInt 2)]]"

definition ids_text :: string where
  "ids_text = ''[{'' @ [dquote] @ ''id'' @ [dquote] @ '': 1}, {'' @ [dquote] @ ''id'' @ [dquote] @ '': 2}]''"

section \<open>Properties\<close>

subsection \<open>Auxiliary facts\<close>

lemma endswith_last: "endswith s suf \<Longrightarrow> suf \<noteq> [] \<Longrightarrow> last s = last suf"
  by (metis endswith_def last_drop append_take_drop_id last_appendR)

lemma csv_not_json: "endswith p ''.csv'' \<Longrightarrow> \<not> endswith p ''.json''"
  using endswith_last [of p "''.csv''"] endswith_last [of p "''.json''"] by auto

text \<open>The branching of \<^verbatim>\<open>dump_output\<close>, read as a choice among the three sinks.\<close>

lemma dump_output_select:
  "dump_output c d w =
     (case select_target (output c) of
        Stdout \<Rightarrow> Return (print (json_dumps d) w)
      | JsonFile p \<Rightarrow> handle_output_error (write_json p d w)
      | CsvFile p \<Rightarrow> handle_output_error (write_csv p d w))"
proof (cases "output c")
  case None
  then show ?thesis by (simp add: dump_output_def select_target_def)
next
  case (Some p)
  show ?thesis
  proof (cases "p = []")
    case True
    with Some show ?thesis by (simp add: dump_output_def select_target_def endswith_def)
  next
    case False
    with Some show ?thesis by (simp add: dump_output_def select_target_def)
  qed
qed



lemma not_http_error: "200 \<le> status_code r \<Longrightarrow> status_code r < 300 \<Longrightarrow> raise_for_status r = None"
  by (simp add: raise_for_status_def)

lemma status_texts:
  "str_int 200 = ''200''" "str_int 201 = ''201''" "str_int 300 = ''300''" "str_int 404 = ''404''"
  by code_simp+

text \<open>Writing rows of mappings never raises and appends one line per mapping.\<close>

lemma write_rows_dicts:
  "write_rows p (map JDict kvss) w = Inr (foldl (\<lambda>w kvs. fwrite p (writerow (map snd kvs)) w) w kvss)"
  by (induction kvss arbitrary: w) auto

lemma fwrite_fwrite: "fwrite p t (fwrite p s w) = fwrite p (s @ t) w"
  by (simp add: fwrite_def)

lemma foldl_fwrite:
  "foldl (\<lambda>w kvs. fwrite p (f kvs) w) (fwrite p s w) kvss = fwrite p (s @ concat (map f kvss)) w"
  by (induction kvss arbitrary: s) (auto simp: fwrite_fwrite)

lemma write_csv_dicts:
  assumes "open_error w p = None"
  shows "write_csv p (JList (map JDict (kvs # kvss))) w =
     Inr (w\<lparr>files := (files w)(p \<mapsto>
        writerow (map (JStr \<circ> fst) kvs) @ concat (map (\<lambda>d. writerow (map snd d)) (kvs # kvss)))\<rparr>)"
proof -
  define w1 where "w1 = w\<lparr>files := (files w)(p \<mapsto> [])\<rparr>"
  have opened: "open_w p w = Inr w1"
    using assms by (simp add: open_w_def w1_def)
  have fw: "fwrite p s w1 = w\<lparr>files := (files w)(p \<mapsto> s)\<rparr>" for s
    by (simp add: fwrite_def w1_def)
  have "write_csv p (JList (map JDict (kvs # kvss))) w =
        write_rows p (map JDict (kvs # kvss)) (fwrite p (writerow (map (JStr \<circ> fst) kvs)) w1)"
    by (simp add: opened del: write_rows.simps)
  also have "\<dots> = Inr (fwrite p (writerow (map (JStr \<circ> fst) kvs)
                  @ concat (map (\<lambda>d. writerow (map snd d)) (kvs # kvss))) w1)"
    unfolding write_rows_dicts foldl_fwrite ..
  finally show ?thesis by (simp only: fw)
qed

lemma write_csv_invalid:
  "\<not> is_nonempty_list d \<Longrightarrow> write_csv p d w = Inr (print ''Invalid data format for CSV output.'' w)"
  by (cases "(p, d, w)" rule: write_csv.cases) auto

text \<open>Nothing already on the console is lost or changed by a call.\<close>

lemma write_rows_console:
  "write_rows p ds w = Inr w' \<Longrightarrow> console w' = console w"
  "write_rows p ds w = Inl (e, w') \<Longrightarrow> console w' = console w"
  by (induction p ds w rule: write_rows.induct) (auto simp: fwrite_def)

lemma write_table_console:
  "write_table p ds w = Inr w' \<Longrightarrow> console w' = console w"
  "write_table p ds w = Inl (e, w') \<Longrightarrow> console w' = console w"
  by (induction p ds w rule: write_table.induct)
     (auto simp: fwrite_def dest: write_rows_console simp del: write_rows.simps)

lemma write_csv_console:
  "write_csv p d w = Inr w' \<Longrightarrow> \<exists>rest. console w' = console w @ rest"
  "write_csv p d w = Inl (e, w') \<Longrightarrow> console w' = console w"
  by (induction p d w rule: write_csv.induct)
     (auto simp: open_w_def print_def split: option.splits dest: write_table_console
        simp del: write_table.simps)

lemma write_json_console:
  "write_json p d w = Inr w' \<Longrightarrow> \<exists>rest. console w' = console w @ rest"
  "write_json p d w = Inl (e, w') \<Longrightarrow> console w' = console w"
  by (auto simp: write_json_def open_w_def fwrite_def split: option.splits)

lemma handle_console:
  assumes "\<And>w'. a = Inr w' \<Longrightarrow> \<exists>rest. console w' = console w @ rest"
    and "\<And>e w'. a = Inl (e, w') \<Longrightarrow> console w' = console w"
  shows "\<exists>rest. console (final (handle_output_error a)) = console w @ rest"
proof (cases a)
  case (Inl ew)
  then show ?thesis using assms(2) [of "fst ew" "snd ew"] by (cases ew) (simp add: print_def)
next
  case (Inr w')
  then show ?thesis using assms(1) by simp
qed

lemma dump_output_console: "\<exists>rest. console (final (dump_output c d w)) = console w @ rest"
  by (cases "select_target (output c)")
     (auto simp: dump_output_select print_def intro!: handle_console
        dest: write_json_console write_csv_console)

subsection \<open>HTTP errors\<close>

text \<open>
  Claim C1, as amended. For every response whose status code is a 4XX or 5XX code
  (400 to 599), whatever the method of the client, the program prints the line
  \<^verbatim>\<open>HTTP Status Code: <code>\<close> and then an \<^verbatim>\<open>HTTP Error: ...\<close> message, terminates with
  exit code 1, and changes nothing else: no file is written.
\<close>

theorem http_error_terminates:
  assumes "400 \<le> status_code r" and "status_code r < 600"
  shows "raise_for_status r \<noteq> None
       \<and> process_response c (Some r) w =
           Exit 1 (w\<lparr>console := console w @ [''HTTP Status Code: '' @ str_int (status_code r),
                                              ''HTTP Error: '' @ the (raise_for_status r)]\<rparr>)
       \<and> exit_status (process_response c (Some r) w) = 1
       \<and> files (final (process_response c (Some r) w)) = files w"
  using assms
  by (auto simp: process_response_def raise_for_status_def status_line_def print_def Let_def)

text \<open>A 404 answer to a GET and to a POST, both with the output file \<^verbatim>\<open>out.json\<close>.\<close>

theorem http_error_terminates_witness:
  "(400::int) \<le> 404 \<and> (404::int) < 600
   \<and> process_response (getter (Some ''out.json'')) (Some (reply 404 ''Not Found'' ''{}'' (JDict []))) w_init =
       Exit 1 (w_init\<lparr>console := [''HTTP Status Code: 404'',
          ''HTTP Error: 404 Client Error: Not Found for url: https://jsonplaceholder.typicode.com/users'']\<rparr>)
   \<and> process_response (poster (Some ''out.json'')) (Some (reply 404 ''Not Found'' ''{}'' (JDict []))) w_init =
       Exit 1 (w_init\<lparr>console := [''HTTP Status Code: 404'',
          ''HTTP Error: 404 Client Error: Not Found for url: https://jsonplaceholder.typicode.com/users'']\<rparr>)"
  using http_error_terminates [of "reply 404 ''Not Found'' ''{}'' (JDict [])" "getter (Some ''out.json'')" w_init]
        http_error_terminates [of "reply 404 ''Not Found'' ''{}'' (JDict [])" "poster (Some ''out.json'')" w_init]
  by (simp add: reply_def raise_for_status_def status_texts BASE_URL_def w_init_def)

text \<open>
  Claim C1 as stated fails: status 300 is not a 2xx code, yet a GET that receives it
  with a JSON body writes the output file and returns, so the process exits with 0.
\<close>

theorem non_2xx_counterexample:
  "\<not> (200 \<le> status_code (reply 300 ''Multiple Choices'' ''[]'' (JList []))
        \<and> status_code (reply 300 ''Multiple Choices'' ''[]'' (JList [])) < 300)
   \<and> process_response (getter (Some ''out.json''))
        (Some (reply 300 ''Multiple Choices'' ''[]'' (JList []))) w_init =
       Return (w_init\<lparr>console := [''HTTP Status Code: 300''], files := [''out.json'' \<mapsto> ''[]'']\<rparr>)
   \<and> exit_status (process_response (getter (Some ''out.json''))
        (Some (reply 300 ''Multiple Choices'' ''[]'' (JList []))) w_init) = 0"
  by (simp add: process_response_def raise_for_status_def status_line_def print_def reply_def getter_def
      RestfulClient_def dump_output_def endswith_def write_json_def open_w_def fwrite_def w_init_def
      json_dumps_def status_texts)

subsection \<open>POST: only 201 is a success\<close>

text \<open>What \<^verbatim>\<open>dump_output\<close> leaves behind, sink by sink, when nothing fails.\<close>

lemma dump_output_stdout:
  "select_target (output c) = Stdout \<Longrightarrow>
   dump_output c d w = Return (w\<lparr>console := console w @ [json_dumps d]\<rparr>)"
  by (simp add: dump_output_select print_def)

lemma dump_output_json_file:
  "select_target (output c) = JsonFile path \<Longrightarrow> open_error w path = None \<Longrightarrow>
   dump_output c d w = Return (w\<lparr>files := (files w)(path \<mapsto> json_dumps d)\<rparr>)"
  by (simp add: dump_output_select write_json_def open_w_def fwrite_def)

lemma dump_output_csv_file:
  "select_target (output c) = CsvFile path \<Longrightarrow> open_error w path = None \<Longrightarrow>
   dump_output c (JList (JDict first # map JDict others)) w =
     Return (w\<lparr>files := (files w)(path \<mapsto>
        writerow (map JStr (map fst first))
        @ concat (map (\<lambda>kvs. writerow (map snd kvs)) (first # others)))\<rparr>)"
  using write_csv_dicts [of w path first others]
  by (simp add: dump_output_select)

lemma sample_texts:
  "json_dumps pair = ''['' @ [LF] @ ''  1,'' @ [LF] @ ''  2'' @ [LF] @ '']''"
  "writerow [JStr ''id''] = ''id'' @ [CR, LF]"
  "writerow [JInt 1] = ''1'' @ [CR, LF]"
  "writerow [JInt 2] = ''2'' @ [CR, LF]"
  by code_simp+




text \<open>
  Claim C6. For every POST whose response has status 201 and a body that parses, when
  the output does not fail, the payload is serialized to the selected target and
  \<^verbatim>\<open>Post request successful.\<close> is printed after it, and the process exits with 0: on
  standard output the pretty-printed payload stands between the status line and the
  message; a JSON file that can be opened holds the pretty-printed payload; a CSV file
  that can be opened holds, for a non-empty list of mappings, the header and the rows.
\<close>

theorem post_created:
  assumes "method c = ''post''" and "status_code r = 201" and "json_result r = Inr payload"
  shows "(select_target (output c) = Stdout \<longrightarrow>
            process_response c (Some r) w =
              Return (w\<lparr>console := console w @ [''HTTP Status Code: '' @ str_int (status_code r),
                                                 json_dumps payload, ''Post request successful.'']\<rparr>)
            \<and> exit_status (process_response c (Some r) w) = 0)
       \<and> (\<forall>path. select_target (output c) = JsonFile path \<and> open_error w path = None \<longrightarrow>
            process_response c (Some r) w =
              Return (w\<lparr>console := console w @ [''HTTP Status Code: '' @ str_int (status_code r),
                                                 ''Post request successful.''],
                        files := (files w)(path \<mapsto> json_dumps payload)\<rparr>)
            \<and> exit_status (process_response c (Some r) w) = 0)
       \<and> (\<forall>path first others.
            select_target (output c) = CsvFile path \<and> open_error w path = None
            \<and> payload = JList (JDict first # map JDict others) \<longrightarrow>
            process_response c (Some r) w =
              Return (w\<lparr>console := console w @ [''HTTP Status Code: '' @ str_int (status_code r),
                                                 ''Post request successful.''],
                        files := (files w)(path \<mapsto>
                          writerow (map JStr (map fst first))
                          @ concat (map (\<lambda>kvs. writerow (map snd kvs)) (first # others)))\<rparr>)
            \<and> exit_status (process_response c (Some r) w) = 0)"
proof -
  define w1 where "w1 = print (''HTTP Status Code: '' @ str_int (status_code r)) w"
  have w1: "console w1 = console w @ [''HTTP Status Code: '' @ str_int (status_code r)]"
    "files w1 = files w" "open_error w1 = open_error w"
    by (simp_all add: w1_def print_def)
  have run: "process_response c (Some r) w =
      (case dump_output c payload w1 of
         Exit code w2 \<Rightarrow> Exit code w2
       | Return w2 \<Rightarrow> Return (print ''Post request successful.'' w2))"
    using assms
    by (simp add: process_response_def raise_for_status_def status_line_def w1_def split: outcome.splits)
  have out: "select_target (output c) = Stdout \<Longrightarrow>
      process_response c (Some r) w =
        Return (w\<lparr>console := console w @ [''HTTP Status Code: '' @ str_int (status_code r),
                                           json_dumps payload, ''Post request successful.'']\<rparr>)"
    by (simp add: run dump_output_stdout w1_def print_def)
  have jsn: "select_target (output c) = JsonFile path \<Longrightarrow> open_error w path = None \<Longrightarrow>
      process_response c (Some r) w =
        Return (w\<lparr>console := console w @ [''HTTP Status Code: '' @ str_int (status_code r),
                                           ''Post request successful.''],
                  files := (files w)(path \<mapsto> json_dumps payload)\<rparr>)" for path
    using dump_output_json_file [of c path w1 payload]
    by (simp add: run w1) (simp add: w1_def print_def)
  have csv: "select_target (output c) = CsvFile path \<Longrightarrow> open_error w path = None \<Longrightarrow>
      payload = JList (JDict first # map JDict others) \<Longrightarrow>
      process_response c (Some r) w =
        Return (w\<lparr>console := console w @ [''HTTP Status Code: '' @ str_int (status_code r),
                                           ''Post request successful.''],
                  files := (files w)(path \<mapsto>
                    writerow (map JStr (map fst first))
                    @ concat (map (\<lambda>kvs. writerow (map snd kvs)) (first # others)))\<rparr>)"
    for path first others
    using dump_output_csv_file [of c path w1 first others]
    by (simp add: run w1) (simp add: w1_def print_def)
  show ?thesis
    using out jsn csv by (auto simp del: fun_upd_apply)
qed

text \<open>
  A POST answered with 201 and the list \<^verbatim>\<open>[1, 2]\<close>, to standard output and to
  \<^verbatim>\<open>out.json\<close>; one answered with two mappings, to \<^verbatim>\<open>out.csv\<close>.
\<close>

theorem post_created_witness:
  "method (poster None) = ''post''
   \<and> status_code (reply 201 ''Created'' pair_text pair) = 201
   \<and> select_target (output (poster None)) = Stdout
   \<and> process_response (poster None) (Some (reply 201 ''Created'' pair_text pair)) w_init =
       Return (w_init\<lparr>console := [''HTTP Status Code: 201'',
                                     ''['' @ [LF] @ ''  1,'' @ [LF] @ ''  2'' @ [LF] @ '']'',
                                     ''Post request successful.'']\<rparr>)
   \<and> select_target (output (poster (Some ''out.json''))) = JsonFile ''out.json''
   \<and> open_error w_init ''out.json'' = None
   \<and> process_response (poster (Some ''out.json'')) (Some (reply 201 ''Created'' pair_text pair)) w_init =
       Return (w_init\<lparr>console := [''HTTP Status Code: 201'', ''Post request successful.''],
                       files := [''out.json'' \<mapsto> ''['' @ [LF] @ ''  1,'' @ [LF] @ ''  2'' @ [LF] @ '']'']\<rparr>)
   \<and> select_target (output (poster (Some ''out.csv''))) = CsvFile ''out.csv''
   \<and> process_response (poster (Some ''out.csv'')) (Some (reply 201 ''Created'' ids_text ids)) w_init =
       Return (w_init\<lparr>console := [''HTTP Status Code: 201'', ''Post request successful.''],
                       files := [''out.csv'' \<mapsto> ''id'' @ [CR, LF] @ ''1'' @ [CR, LF] @ ''2'' @ [CR, LF]]\<rparr>)
   \<and> exit_status (process_response (poster (Some ''out.csv''))
         (Some (reply 201 ''Created'' ids_text ids)) w_init) = 0"
proof -
  have m: "method (poster out) = ''post''" for out
    by (simp add: poster_def RestfulClient_def)
  have s: "status_code (reply 201 ''Created'' body v) = 201"
      "json_result (reply 201 ''Created'' body v) = Inr v" for body v
    by (simp_all add: reply_def)
  have t: "select_target (output (poster None)) = Stdout"
      "select_target (output (poster (Some ''out.json''))) = JsonFile ''out.json''"
      "select_target (output (poster (Some ''out.csv''))) = CsvFile ''out.csv''"
    by (simp_all add: select_target_def poster_def endswith_def)
  have o: "open_error w_init p = None" for p by (simp add: w_init_def)
  have i: "ids = JList (JDict [(''id'', JInt 1)] # map JDict [[(''id'', JInt 2)]])"
    by (simp add: ids_def)
  note a = post_created [OF m s, of None pair_text pair w_init]
  note b = post_created [OF m s, of "Some ''out.json''" pair_text pair w_init]
  note c = post_created [OF m s, of "Some ''out.csv''" ids_text ids w_init]
  have 1: "process_response (poster None) (Some (reply 201 ''Created'' pair_text pair)) w_init =
       Return (w_init\<lparr>console := [''HTTP Status Code: 201'',
                                     ''['' @ [LF] @ ''  1,'' @ [LF] @ ''  2'' @ [LF] @ '']'',
                                     ''Post request successful.'']\<rparr>)"
    using a [THEN conjunct1] t(1)
    by (simp add: reply_def status_texts sample_texts w_init_def)
  have 2: "process_response (poster (Some ''out.json'')) (Some (reply 201 ''Created'' pair_text pair)) w_init =
       Return (w_init\<lparr>console := [''HTTP Status Code: 201'', ''Post request successful.''],
                       files := [''out.json'' \<mapsto> ''['' @ [LF] @ ''  1,'' @ [LF] @ ''  2'' @ [LF] @ '']'']\<rparr>)"
    using b [THEN conjunct2, THEN conjunct1, rule_format, of "''out.json''"] t(2) o
    by (simp add: reply_def status_texts sample_texts w_init_def)
  have 3: "process_response (poster (Some ''out.csv'')) (Some (reply 201 ''Created'' ids_text ids)) w_init =
       Return (w_init\<lparr>console := [''HTTP Status Code: 201'', ''Post request successful.''],
                       files := [''out.csv'' \<mapsto> ''id'' @ [CR, LF] @ ''1'' @ [CR, LF] @ ''2'' @ [CR, LF]]\<rparr>)"
    using c [THEN conjunct2, THEN conjunct2, rule_format,
             of "''out.csv''" "[(''id'', JInt 1)]" "[[(''id'', JInt 2)]]"] t(3) o i
    by (simp add: reply_def status_texts sample_texts w_init_def)
  show ?thesis
    using m [of None] s(1) [of pair_text pair] t o 1 2 3 by simp
qed

subsection \<open>The output serializer\<close>

text \<open>
  Claim C3 fails on the code for a non-empty list whose first element is no mapping: the
  guard of the \<^verbatim>\<open>.csv\<close> branch only asks for a non-empty list, so the file is opened
  (and left empty), \<^verbatim>\<open>data[0].keys()\<close> raises, and the handler prints its own message
  and ends the process with exit code 1.
\<close>

theorem csv_shape_failing_input:
  "dump_output (getter (Some ''out.csv'')) (JList [JInt 1]) w_init =
     Exit 1 (w_init\<lparr>console := [''Error while writing output: '' @ [apos] @ ''int'' @ [apos] @
                                  '' object has no attribute '' @ [apos] @ ''keys'' @ [apos]],
                     files := [''out.csv'' \<mapsto> []]\<rparr>)"
  by (simp add: getter_def RestfulClient_def dump_output_def endswith_def open_w_def print_def
      w_init_def no_attribute_def)

text \<open>
  Claim C4. The sink \<^verbatim>\<open>dump_output\<close> uses is the one the selection policy gives for
  the optional output path, for every path: the JSON file for a path ending in
  \<^verbatim>\<open>.json\<close>, the CSV file for one ending in \<^verbatim>\<open>.csv\<close>, and standard output for no
  path or any other ending, where the call prints and returns.
\<close>

theorem target_selection:
  "dump_output c d w =
     (case select_target (output c) of
        Stdout \<Rightarrow> Return (print (json_dumps d) w)
      | JsonFile path \<Rightarrow> handle_output_error (write_json path d w)
      | CsvFile path \<Rightarrow> handle_output_error (write_csv path d w))"
  by (rule dump_output_select)

theorem target_selection_witness:
  "select_target (output (getter None)) = Stdout
   \<and> select_target (output (getter (Some ''out.txt''))) = Stdout
   \<and> select_target (output (getter (Some ''out.json''))) = JsonFile ''out.json''
   \<and> select_target (output (getter (Some ''out.csv''))) = CsvFile ''out.csv''
   \<and> dump_output (getter None) (JList []) w_init = Return (print ''[]'' w_init)
   \<and> dump_output (getter (Some ''out.txt'')) (JList []) w_init = Return (print ''[]'' w_init)
   \<and> dump_output (getter (Some ''out.json'')) (JList []) w_init =
       Return (w_init\<lparr>files := [''out.json'' \<mapsto> ''[]'']\<rparr>)
   \<and> dump_output (getter (Some ''out.csv'')) (JList []) w_init =
       Return (print ''Invalid data format for CSV output.'' w_init)"
proof -
  have t: "select_target (output (getter None)) = Stdout"
      "select_target (output (getter (Some ''out.txt''))) = Stdout"
      "select_target (output (getter (Some ''out.json''))) = JsonFile ''out.json''"
      "select_target (output (getter (Some ''out.csv''))) = CsvFile ''out.csv''"
    by (simp_all add: select_target_def getter_def endswith_def)
  show ?thesis
    using target_selection [of "getter None" "JList []" w_init]
          target_selection [of "getter (Some ''out.txt'')" "JList []" w_init]
          target_selection [of "getter (Some ''out.json'')" "JList []" w_init]
          target_selection [of "getter (Some ''out.csv'')" "JList []" w_init]
    by (simp add: t json_dumps_def write_json_def open_w_def fwrite_def w_init_def)
qed

text \<open>
  Claim C5. For a payload that is a non-empty list of mappings and a CSV target that
  can be opened, the file holds, first, the row of the keys of the first element in
  that element's order, then for each element in turn the row of its values; the keys
  of later elements are not looked at.
\<close>

theorem csv_header_and_rows:
  assumes "select_target (output c) = CsvFile path" and "open_error w path = None"
  shows "dump_output c (JList (JDict first # map JDict others)) w =
     Return (w\<lparr>files := (files w)(path \<mapsto>
        writerow (map JStr (map fst first))
        @ concat (map (\<lambda>kvs. writerow (map snd kvs)) (first # others)))\<rparr>)"
  using assms write_csv_dicts [of w path first others]
  by (simp add: dump_output_select)

text \<open>The payload of two users gives \<^verbatim>\<open>id,name\<close>, \<^verbatim>\<open>1,a\<close> and \<^verbatim>\<open>2,b\<close>.\<close>

theorem csv_header_and_rows_witness:
  "select_target (output (getter (Some ''out.csv''))) = CsvFile ''out.csv''
   \<and> open_error w_init ''out.csv'' = None
   \<and> dump_output (getter (Some ''out.csv'')) users w_init =
       Return (w_init\<lparr>files := [''out.csv'' \<mapsto>
         ''id,name'' @ [CR, LF] @ ''1,a'' @ [CR, LF] @ ''2,b'' @ [CR, LF]]\<rparr>)"
proof -
  have r: "writerow [JStr ''id'', JStr ''name''] = ''id,name'' @ [CR, LF]"
     "writerow [JInt 1, JStr ''a''] = ''1,a'' @ [CR, LF]"
     "writerow [JInt 2, JStr ''b''] = ''2,b'' @ [CR, LF]"
    by code_simp+
  have t: "select_target (output (getter (Some ''out.csv''))) = CsvFile ''out.csv''"
    by (simp add: select_target_def getter_def endswith_def)
  have o: "open_error w_init ''out.csv'' = None" by (simp add: w_init_def)
  show ?thesis
    using csv_header_and_rows [OF t o, of "[(''id'', JInt 1), (''name'', JStr ''a'')]"
            "[[(''id'', JInt 2), (''name'', JStr ''b'')]]"] t o
    by (simp add: users_def r w_init_def)
qed

text \<open>
  Claim C9. For a CSV target that can be opened and a non-empty list of mappings, one
  more mapping at the end of the list, whatever its keys, adds exactly one row to the
  file, the row of its own values in its own order; the call returns, no error is
  raised for keys that differ from the header.
\<close>

theorem csv_row_per_element:
  assumes "select_target (output c) = CsvFile path" and "open_error w path = None"
    and "rows \<noteq> []"
  shows "dump_output c (JList (map JDict (rows @ [kvs]))) w =
     Return (fwrite path (writerow (map snd kvs)) (final (dump_output c (JList (map JDict rows)) w)))"
proof (cases rows)
  case Nil
  with assms show ?thesis by simp
next
  case (Cons first others)
  then show ?thesis
    using assms write_csv_dicts [of w path first "others @ [kvs]"] write_csv_dicts [of w path first others]
    by (simp add: dump_output_select fwrite_def)
qed

text \<open>A second element with another key: its value is the third line.\<close>

theorem csv_row_per_element_witness:
  "select_target (output (getter (Some ''out.csv''))) = CsvFile ''out.csv''
   \<and> open_error w_init ''out.csv'' = None
   \<and> [[(''id'', JInt 1), (''name'', JStr ''a'')]] \<noteq> []
   \<and> dump_output (getter (Some ''out.csv''))
        (JList [JDict [(''id'', JInt 1), (''name'', JStr ''a'')], JDict [(''done'', JBool True)]]) w_init =
       Return (w_init\<lparr>files := [''out.csv'' \<mapsto>
         ''id,name'' @ [CR, LF] @ ''1,a'' @ [CR, LF] @ ''True'' @ [CR, LF]]\<rparr>)"
proof -
  have r: "writerow [JStr ''id'', JStr ''name''] = ''id,name'' @ [CR, LF]"
     "writerow [JInt 1, JStr ''a''] = ''1,a'' @ [CR, LF]"
     "writerow [JBool True] = ''True'' @ [CR, LF]"
    by code_simp+
  have t: "select_target (output (getter (Some ''out.csv''))) = CsvFile ''out.csv''"
    by (simp add: select_target_def getter_def endswith_def)
  have o: "open_error w_init ''out.csv'' = None" by (simp add: w_init_def)
  have n: "[[(''id'', JInt 1), (''name'', JStr ''a'')]] \<noteq> []" by simp
  have one: "dump_output (getter (Some ''out.csv'')) (JList [JDict [(''id'', JInt 1), (''name'', JStr ''a'')]]) w_init =
       Return (w_init\<lparr>files := [''out.csv'' \<mapsto> ''id,name'' @ [CR, LF] @ ''1,a'' @ [CR, LF]]\<rparr>)"
    by (simp add: getter_def RestfulClient_def dump_output_def endswith_def open_w_def fwrite_def
        w_init_def r)
  have "dump_output (getter (Some ''out.csv''))
          (JList (map JDict ([[(''id'', JInt 1), (''name'', JStr ''a'')]] @ [[(''done'', JBool True)]]))) w_init =
        Return (fwrite ''out.csv'' (writerow (map snd [(''done'', JBool True)]))
          (final (dump_output (getter (Some ''out.csv''))
             (JList (map JDict [[(''id'', JInt 1), (''name'', JStr ''a'')]])) w_init)))"
    by (rule csv_row_per_element [OF t o n])
  then have "dump_output (getter (Some ''out.csv''))
          (JList [JDict [(''id'', JInt 1), (''name'', JStr ''a'')], JDict [(''done'', JBool True)]]) w_init =
        Return (fwrite ''out.csv'' (writerow [JBool True])
          (w_init\<lparr>files := [''out.csv'' \<mapsto> ''id,name'' @ [CR, LF] @ ''1,a'' @ [CR, LF]]\<rparr>))"
    using one by simp
  then show ?thesis
    using t o by (simp add: r fwrite_def)
qed

subsection \<open>GET\<close>

text \<open>
  Claim C7, as amended. For every GET whose response has a 2xx status and a body that
  parses: with standard output as the target, the pretty-printed JSON text of the
  payload is printed, right after the status line; with a JSON file that can be opened
  as the target, that text is the whole content of the file; with a CSV file as the
  target, a payload that is not a non-empty list is not output at all: the diagnostic
  is printed after the status line and no file is written.
\<close>

theorem get_output_is_json:
  assumes "method c = ''get''" and "200 \<le> status_code r" and "status_code r < 300"
    and "json_result r = Inr payload"
  shows "(select_target (output c) = Stdout \<longrightarrow>
            process_response c (Some r) w =
              Return (w\<lparr>console := console w @ [''HTTP Status Code: '' @ str_int (status_code r),
                                                 json_dumps payload]\<rparr>))
       \<and> (\<forall>path. select_target (output c) = JsonFile path \<and> open_error w path = None \<longrightarrow>
            process_response c (Some r) w =
              Return (w\<lparr>console := console w @ [''HTTP Status Code: '' @ str_int (status_code r)],
                        files := (files w)(path \<mapsto> json_dumps payload)\<rparr>))
       \<and> (\<forall>path. select_target (output c) = CsvFile path \<and> \<not> is_nonempty_list payload \<longrightarrow>
            process_response c (Some r) w =
              Return (w\<lparr>console := console w @ [''HTTP Status Code: '' @ str_int (status_code r),
                                                 ''Invalid data format for CSV output.'']\<rparr>))"
  using assms
  by (auto simp: process_response_def not_http_error status_line_def dump_output_select
      print_def write_json_def open_w_def fwrite_def write_csv_invalid)

theorem get_output_is_json_witness:
  "method (getter None) = ''get'' \<and> method (getter (Some ''out.json'')) = ''get''
   \<and> 200 \<le> status_code (reply 200 ''OK'' ''[]'' (JList []))
   \<and> status_code (reply 200 ''OK'' ''[]'' (JList [])) < 300
   \<and> select_target (output (getter None)) = Stdout
   \<and> process_response (getter None) (Some (reply 200 ''OK'' ''[]'' (JList []))) w_init =
       Return (w_init\<lparr>console := [''HTTP Status Code: 200'', ''[]'']\<rparr>)
   \<and> select_target (output (getter (Some ''out.json''))) = JsonFile ''out.json''
   \<and> open_error w_init ''out.json'' = None
   \<and> process_response (getter (Some ''out.json'')) (Some (reply 200 ''OK'' ''[]'' (JList []))) w_init =
       Return (w_init\<lparr>console := [''HTTP Status Code: 200''], files := [''out.json'' \<mapsto> ''[]'']\<rparr>)
   \<and> select_target (output (getter (Some ''out.csv''))) = CsvFile ''out.csv''
   \<and> \<not> is_nonempty_list (JList [])
   \<and> process_response (getter (Some ''out.csv'')) (Some (reply 200 ''OK'' ''[]'' (JList []))) w_init =
       Return (w_init\<lparr>console := [''HTTP Status Code: 200'', ''Invalid data format for CSV output.'']\<rparr>)"
proof -
  have m: "method (getter out) = ''get''" for out
    by (simp add: getter_def RestfulClient_def)
  have s: "200 \<le> status_code (reply 200 ''OK'' ''[]'' (JList []))"
      "status_code (reply 200 ''OK'' ''[]'' (JList [])) < 300"
      "json_result (reply 200 ''OK'' ''[]'' (JList [])) = Inr (JList [])"
    by (simp_all add: reply_def)
  have t: "select_target (output (getter None)) = Stdout"
      "select_target (output (getter (Some ''out.json''))) = JsonFile ''out.json''"
      "select_target (output (getter (Some ''out.csv''))) = CsvFile ''out.csv''"
    by (simp_all add: select_target_def getter_def endswith_def)
  have o: "open_error w_init ''out.json'' = None" by (simp add: w_init_def)
  have e: "json_dumps (JList []) = ''[]''" by (simp add: json_dumps_def)
  show ?thesis
    using get_output_is_json [OF m s, of None w_init]
          get_output_is_json [OF m s, of "Some ''out.json''" w_init]
          get_output_is_json [OF m s, of "Some ''out.csv''" w_init] m s t o
    by (simp add: e reply_def status_texts w_init_def)
qed

text \<open>
  Claim C7 as stated fails for the CSV target: a GET that receives the single mapping
  \<^verbatim>\<open>{"id": 1, "name": "a"}\<close> with a 200 writes no file at all and prints a diagnostic
  in place of the payload.
\<close>

theorem csv_output_counterexample:
  "select_target (output (getter (Some ''out.csv''))) = CsvFile ''out.csv''
   \<and> files (final (process_response (getter (Some ''out.csv''))
        (Some (reply 200 ''OK'' ''{}'' user1)) w_init)) ''out.csv'' = None
   \<and> console (final (process_response (getter (Some ''out.csv''))
        (Some (reply 200 ''OK'' ''{}'' user1)) w_init)) =
       [''HTTP Status Code: 200'', ''Invalid data format for CSV output.'']"
  by (simp add: process_response_def raise_for_status_def status_line_def reply_def getter_def
      RestfulClient_def dump_output_def endswith_def print_def w_init_def user1_def status_texts
      select_target_def)

subsection \<open>The status line\<close>

lemma process_response_console:
  "\<exists>rest. console (final (process_response c (Some r) w)) =
          console w @ (''HTTP Status Code: '' @ str_int (status_code r)) # rest"
proof -
  define w1 where "w1 = print (status_line r) w"
  have c1: "console w1 = console w @ [''HTTP Status Code: '' @ str_int (status_code r)]"
    by (simp add: w1_def print_def status_line_def)
  have d: "\<exists>rest. console (final (dump_output c v w1)) =
            console w @ (''HTTP Status Code: '' @ str_int (status_code r)) # rest" for v
    using dump_output_console [of c v w1] by (auto simp: c1)
  have p: "\<exists>rest. console (final (case dump_output c v w1 of
                Exit code w2 \<Rightarrow> Exit code w2
              | Return w2 \<Rightarrow> if status_code r = 201 then Return (print ''Post request successful.'' w2)
                              else Exit 1 (print (''Error: '' @ text r) w2))) =
            console w @ (''HTTP Status Code: '' @ str_int (status_code r)) # rest" for v
    using d [of v] by (cases "dump_output c v w1") (auto simp: print_def)
  show ?thesis
    unfolding process_response_def option.case Let_def w1_def [symmetric]
    using d p by (auto simp: c1 print_def split: option.splits sum.splits)
qed

lemma main_get:
  "arg_method a = ''get'' \<Longrightarrow>
   \<exists>c. main a net w = process_response c (Some (http_get net (BASE_URL @ arg_endpoint a))) w"
  by (cases "arg_output a") (auto simp: main_def Let_def send_request_def RestfulClient_def)

lemma main_post:
  "arg_method a = ''post'' \<Longrightarrow>
   \<exists>c. main a net w = process_response c
          (Some (http_post net (BASE_URL @ arg_endpoint a) (arg_data a)
                   [(''Content-Type'', ''application/json'')])) w"
  by (cases "arg_output a") (auto simp: main_def Let_def send_request_def RestfulClient_def)

text \<open>
  Claim C10. For every response processed, whatever the method, the status and the
  target, the first thing the call prints is the line \<^verbatim>\<open>HTTP Status Code: <code>\<close>:
  everything else it prints, the pretty-printed payload on standard output included,
  comes after it. \<^verbatim>\<open>main\<close> prints nothing of its own, so for a GET and for a POST this
  line is the first output of the run.
\<close>

theorem status_line_first:
  "(\<exists>rest. console (final (process_response c (Some r) w)) =
          console w @ (''HTTP Status Code: '' @ str_int (status_code r)) # rest)
   \<and> (arg_method a = ''get'' \<longrightarrow>
        (\<exists>rest. console (final (main a net w)) =
           console w @ (''HTTP Status Code: ''
             @ str_int (status_code (http_get net (BASE_URL @ arg_endpoint a)))) # rest))
   \<and> (arg_method a = ''post'' \<longrightarrow>
        (\<exists>rest. console (final (main a net w)) =
           console w @ (''HTTP Status Code: ''
             @ str_int (status_code (http_post net (BASE_URL @ arg_endpoint a) (arg_data a)
                 [(''Content-Type'', ''application/json'')]))) # rest))"
proof (intro conjI impI)
  show "\<exists>rest. console (final (process_response c (Some r) w)) =
          console w @ (''HTTP Status Code: '' @ str_int (status_code r)) # rest"
    by (rule process_response_console)
next
  assume "arg_method a = ''get''"
  then obtain c' where "main a net w = process_response c' (Some (http_get net (BASE_URL @ arg_endpoint a))) w"
    using main_get by blast
  then show "\<exists>rest. console (final (main a net w)) =
           console w @ (''HTTP Status Code: ''
             @ str_int (status_code (http_get net (BASE_URL @ arg_endpoint a)))) # rest"
    using process_response_console by simp
next
  assume "arg_method a = ''post''"
  then obtain c' where "main a net w = process_response c'
          (Some (http_post net (BASE_URL @ arg_endpoint a) (arg_data a)
                   [(''Content-Type'', ''application/json'')])) w"
    using main_post by blast
  then show "\<exists>rest. console (final (main a net w)) =
           console w @ (''HTTP Status Code: ''
             @ str_int (status_code (http_post net (BASE_URL @ arg_endpoint a) (arg_data a)
                 [(''Content-Type'', ''application/json'')]))) # rest"
    using process_response_console by simp
qed

text \<open>A successful GET to standard output: the status line stands before the payload.\<close>

theorem status_line_first_witness:
  "arg_method get_users = ''get''
   \<and> console (final (main get_users (always (reply 200 ''OK'' ''[]'' (JList []))) w_init)) =
       [''HTTP Status Code: 200'', ''[]'']"
  using status_line_first [of "getter None" "reply 200 ''OK'' ''[]'' (JList [])" w_init get_users
          "always (reply 200 ''OK'' ''[]'' (JList []))"]
  by (simp add: main_def send_request_def always_def get_users_def process_response_def
      raise_for_status_def status_line_def reply_def RestfulClient_def dump_output_def print_def
      w_init_def json_dumps_def status_texts)

subsection \<open>Reading back what the encoder wrote\<close>

lemma hex_value_digit: "d < 16 \<Longrightarrow> hex_value (hex_digit d) = Some d"
  by (auto simp: hex_value_def hex_digit_def Let_def)

lemma decode_hex4: "n < 256 \<Longrightarrow> decode_uXXXX (hex4 n @ t) = Some n"
proof -
  assume n: "n < 256"
  have z: "n div 4096 = 0" "n div 256 = 0" using n by simp_all
  have m: "n div 16 mod 16 = n div 16" using n by simp
  have d: "n div 16 < 16" "n mod 16 < 16" using n by simp_all
  have "16 * (n div 16) + n mod 16 = n" by simp
  then show ?thesis
    using d by (simp add: decode_uXXXX_def hex4_def z m hex_value_digit)
qed

lemma length_hex4: "length (hex4 n) = 4"
  by (simp add: hex4_def)

lemma scanstring_escaped:
  "scanstring (escape_char c @ t) = cons_result c (scanstring t)"
proof -
  have n: "(of_char c :: nat) < 256" by simp
  consider (bs) "c = backslash" | (dq) "c = dquote" | (b) "c = BS" | (f) "c = FF" | (n) "c = LF"
    | (r) "c = CR" | (t) "c = TAB"
    | (plain) "c \<noteq> backslash" "c \<noteq> dquote" "32 \<le> (of_char c :: nat)" "(of_char c :: nat) \<le> 126"
    | (u) "c \<noteq> backslash" "c \<noteq> dquote" "c \<noteq> BS" "c \<noteq> FF" "c \<noteq> LF" "c \<noteq> CR" "c \<noteq> TAB"
          "\<not> (32 \<le> (of_char c :: nat) \<and> (of_char c :: nat) \<le> 126)"
    by blast
  then show ?thesis
  proof cases
    case plain
    then have "escape_char c = [c]"
      by (auto simp: escape_char_def BS_def FF_def LF_def CR_def TAB_def)
    with plain show ?thesis by simp
  next
    case u
    then have "escape_char c = backslash # CHR ''u'' # hex4 (of_char c)"
      by (simp add: escape_char_def)
    then show ?thesis
      using n by (simp add: decode_hex4 length_hex4 backslash_def dquote_def)
  qed (simp_all add: escape_char_def backslash_table_def backslash_def dquote_def BS_def FF_def
         LF_def CR_def TAB_def)
qed

lemma scanstring_concat:
  "scanstring (concat (map escape_char s) @ dquote # rest) = Some (s, rest)"
  by (induction s) (simp_all add: scanstring_escaped)



lemma boundary_cases:
  assumes "boundary rest"
  obtains "rest = []" | t where "rest = CHR '','' # t" | t where "rest = CHR 0x0A # t"
  using assms by (cases rest) (auto simp: boundary_def LF_def)

lemma not_digit_sep: "\<not> is_digit CHR '',''" "\<not> is_digit CHR 0x0A"
  by (simp_all add: is_digit_def)

lemma takeWhile_digit_boundary:
  "boundary rest \<Longrightarrow> takeWhile is_digit (xs @ rest) = takeWhile is_digit xs"
  by (erule boundary_cases) (induction xs; simp add: not_digit_sep)+

lemma match_integer_append:
  "boundary rest \<Longrightarrow> match_integer (s @ rest) = match_integer s"
proof (cases s)
  case Nil
  assume "boundary rest"
  then show ?thesis using Nil
    by (elim boundary_cases) (simp_all add: match_integer_def not_digit_sep)
next
  case (Cons c t)
  assume "boundary rest"
  then show ?thesis using Cons
    by (simp add: match_integer_def takeWhile_digit_boundary)
qed

lemma match_frac_append:
  "boundary rest \<Longrightarrow> match_frac (s @ rest) = match_frac s"
proof (cases s)
  case Nil
  assume "boundary rest"
  then show ?thesis using Nil
    by (elim boundary_cases) (simp_all add: match_frac_def)
next
  case (Cons c t)
  assume "boundary rest"
  then show ?thesis using Cons
    by (simp add: match_frac_def takeWhile_digit_boundary)
qed

lemma match_exp_append:
  assumes "boundary rest"
  shows "match_exp (s @ rest) = match_exp s"
proof (cases s)
  case Nil
  from assms show ?thesis using Nil
    by (elim boundary_cases) (simp_all add: match_exp_def)
next
  case (Cons e t)
  show ?thesis
  proof (cases t)
    case Nil
    from assms show ?thesis using Cons Nil
      by (elim boundary_cases) (simp_all add: match_exp_def not_digit_sep)
  next
    case (Cons c u)
    with \<open>s = e # t\<close> assms show ?thesis
      by (simp add: match_exp_def takeWhile_digit_boundary)
  qed
qed

lemma length_match_integer: "length (match_integer s) \<le> length s"
  by (cases s) (auto simp: match_integer_def intro: le_trans [OF length_takeWhile_le])

lemma length_match_frac: "length (match_frac s) \<le> length s"
  by (cases s) (auto simp: match_frac_def intro: le_trans [OF length_takeWhile_le])

lemma length_match_exp: "length (match_exp s) \<le> length s"
proof (cases s)
  case Nil
  then show ?thesis by (simp add: match_exp_def)
next
  case (Cons e t)
  then show ?thesis
    by (cases t) (auto simp: match_exp_def intro: le_trans [OF length_takeWhile_le])
qed

lemma match_number_nonempty: "match_number fr s = Some r \<Longrightarrow> s \<noteq> []"
  by (auto simp: match_number_def match_integer_def Let_def)

lemma match_number_append:
  assumes b: "boundary rest" and m: "match_number fr s = Some (v, r)"
  shows "match_number fr (s @ rest) = Some (v, r @ rest)"
proof -
  have ne: "s \<noteq> []" using m by (rule match_number_nonempty)
  define neg where "neg \<longleftrightarrow> s \<noteq> [] \<and> hd s = CHR ''-''"
  define s1 where "s1 = (if neg then tl s else s)"
  define s2 where "s2 = drop (length (match_integer s1)) s1"
  define s3 where "s3 = drop (length (match_frac s2)) s2"
  define r0 where "r0 = drop (length (match_exp s3)) s3"
  have h: "(s @ rest \<noteq> [] \<and> hd (s @ rest) = CHR ''-'') = neg"
    using ne by (simp add: neg_def)
  have t: "(if neg then tl (s @ rest) else s @ rest) = s1 @ rest"
    using ne by (simp add: s1_def)
  have i: "match_integer (s1 @ rest) = match_integer s1"
    using b by (rule match_integer_append)
  have d2: "drop (length (match_integer s1)) (s1 @ rest) = s2 @ rest"
    using length_match_integer [of s1] by (simp add: s2_def)
  have f: "match_frac (s2 @ rest) = match_frac s2"
    using b by (rule match_frac_append)
  have d3: "drop (length (match_frac s2)) (s2 @ rest) = s3 @ rest"
    using length_match_frac [of s2] by (simp add: s3_def)
  have e: "match_exp (s3 @ rest) = match_exp s3"
    using b by (rule match_exp_append)
  have d4: "drop (length (match_exp s3)) (s3 @ rest) = r0 @ rest"
    using length_match_exp [of s3] by (simp add: r0_def)
  have long: "match_number fr (s @ rest) =
        (if match_integer s1 = [] then None
         else if match_frac s2 = [] \<and> match_exp s3 = []
         then Some (JInt (if neg then - int (digits_value (match_integer s1))
                          else int (digits_value (match_integer s1))), r0 @ rest)
         else Some (JFloat (fr ((if neg then ''-'' else []) @ match_integer s1 @ match_frac s2 @ match_exp s3)),
                    r0 @ rest))"
    unfolding match_number_def Let_def
    by (simp only: h t i d2 f d3 e d4)
  have short: "match_number fr s =
        (if match_integer s1 = [] then None
         else if match_frac s2 = [] \<and> match_exp s3 = []
         then Some (JInt (if neg then - int (digits_value (match_integer s1))
                          else int (digits_value (match_integer s1))), r0)
         else Some (JFloat (fr ((if neg then ''-'' else []) @ match_integer s1 @ match_frac s2 @ match_exp s3)),
                    r0))"
    unfolding match_number_def Let_def
    by (simp only: neg_def [symmetric] s1_def [symmetric] s2_def [symmetric] s3_def [symmetric]
        r0_def [symmetric])
  show ?thesis
    using m unfolding long short by (auto split: if_splits)
qed

lemma digit_char_props:
  assumes "d < 10"
  shows "is_digit (digit_char d)" and "(of_char (digit_char d) :: nat) = 48 + d"
    and "digit_char d = CHR ''0'' \<longleftrightarrow> d = 0" and "digit_char d \<noteq> CHR ''-''"
proof -
  show v: "(of_char (digit_char d) :: nat) = 48 + d"
    using assms by (simp add: digit_char_def)
  then show "is_digit (digit_char d)"
    using assms by (simp add: is_digit_def)
  have "(of_char (digit_char d) :: nat) = of_char CHR ''0'' \<longleftrightarrow> d = 0"
    unfolding v by simp
  then show "digit_char d = CHR ''0'' \<longleftrightarrow> d = 0"
    by (metis of_char_eq_iff)
  have "(of_char (digit_char d) :: nat) \<noteq> of_char CHR ''-''"
    unfolding v by simp
  then show "digit_char d \<noteq> CHR ''-''" by auto
qed

lemma str_nat_nonempty: "str_nat n \<noteq> []"
  by (subst str_nat.simps) simp

lemma str_nat_digits: "c \<in> set (str_nat n) \<Longrightarrow> is_digit c"
proof (induction n arbitrary: c rule: str_nat.induct)
  case (1 n)
  show ?case
  proof (cases "n < 10")
    case True
    with 1(2) show ?thesis
      by (subst (asm) str_nat.simps) (simp add: digit_char_props)
  next
    case False
    with 1 show ?thesis
      by (subst (asm) (2) str_nat.simps) (auto simp: digit_char_props)
  qed
qed

lemma hd_str_nat: "0 < n \<Longrightarrow> hd (str_nat n) \<noteq> CHR ''0''"
proof (induction n rule: str_nat.induct)
  case (1 n)
  show ?case
  proof (cases "n < 10")
    case True
    with 1(2) show ?thesis
      by (subst str_nat.simps) (simp add: digit_char_props)
  next
    case False
    then have "0 < n div 10" by simp
    with 1(1) False have "hd (str_nat (n div 10)) \<noteq> CHR ''0''" by simp
    with False show ?thesis
      by (subst str_nat.simps) (simp add: str_nat_nonempty)
  qed
qed

lemma digits_value_snoc:
  "digits_value (ds @ [c]) = 10 * digits_value ds + (of_char c - 48)"
  by (simp add: digits_value_def)

lemma digits_value_str_nat: "digits_value (str_nat n) = n"
proof (induction n rule: str_nat.induct)
  case (1 n)
  show ?case
  proof (cases "n < 10")
    case True
    then show ?thesis
      by (subst str_nat.simps) (simp add: digits_value_def digit_char_props)
  next
    case False
    with 1 have "digits_value (str_nat (n div 10)) = n div 10" by simp
    with False show ?thesis
      by (subst str_nat.simps) (simp add: digits_value_snoc digit_char_props)
  qed
qed

lemma takeWhile_all: "(\<And>c. c \<in> set t \<Longrightarrow> P c) \<Longrightarrow> takeWhile P t = t"
  by (induction t) auto

lemma match_integer_str_nat: "match_integer (str_nat n) = str_nat n"
proof (cases "n = 0")
  case True
  then show ?thesis
    by (subst (1 2) str_nat.simps) (simp add: match_integer_def digit_char_props)
next
  case False
  obtain c t where ct: "str_nat n = c # t"
    using str_nat_nonempty [of n] by (cases "str_nat n") auto
  have "c \<noteq> CHR ''0''" using hd_str_nat [of n] False ct by simp
  moreover have "is_digit c" using str_nat_digits [of c n] ct by simp
  moreover have "takeWhile is_digit t = t"
    using str_nat_digits [of _ n] ct by (intro takeWhile_all) simp
  ultimately show ?thesis by (simp add: ct match_integer_def)
qed

lemma hd_str_nat_not_minus: "hd (str_nat n) \<noteq> CHR ''-''"
proof -
  obtain c t where ct: "str_nat n = c # t"
    using str_nat_nonempty [of n] by (cases "str_nat n") auto
  have "is_digit c" using str_nat_digits [of c n] ct by simp
  then have "c \<noteq> CHR ''-''" by (auto simp: is_digit_def)
  with ct show ?thesis by simp
qed

lemma match_empty: "match_frac [] = []" "match_exp [] = []"
  by (simp_all add: match_frac_def match_exp_def)

lemma match_number_str_nat: "match_number fr (str_nat n) = Some (JInt (int n), [])"
  by (simp add: match_number_def Let_def hd_str_nat_not_minus match_integer_str_nat
      str_nat_nonempty match_empty digits_value_str_nat)

lemma match_number_minus_str_nat:
  "match_number fr (CHR ''-'' # str_nat n) = Some (JInt (- int n), [])"
  by (simp add: match_number_def Let_def match_integer_str_nat
      str_nat_nonempty match_empty digits_value_str_nat)

lemma match_number_str_int: "match_number fr (str_int i) = Some (JInt i, [])"
  by (simp add: str_int_def match_number_str_nat match_number_minus_str_nat)


text \<open>White space.\<close>

lemma skip_ws_indent: "skip_ws (newline_indent l @ s) = skip_ws s"
proof -
  have "\<forall>c\<in>set (newline_indent l). is_ws c"
    by (auto simp: newline_indent_def is_ws_def)
  then show ?thesis
    by (simp add: skip_ws_def dropWhile_append2)
qed

lemma skip_ws_start: "\<not> is_ws c \<Longrightarrow> skip_ws (c # s) = c # s"
  by (simp add: skip_ws_def)

lemma skip_ws_blank: "skip_ws (CHR '' '' # s) = skip_ws s"
  by (simp add: skip_ws_def is_ws_def)

lemma not_ws: "\<not> is_ws CHR '',''" "\<not> is_ws CHR '']''" "\<not> is_ws CHR ''}''" "\<not> is_ws CHR '':''"
  "\<not> is_ws dquote"
  by (simp_all add: is_ws_def TAB_def LF_def CR_def dquote_def)

text \<open>The first character of an encoded value.\<close>


lemma digit_start: "is_digit c \<Longrightarrow> value_start c"
  by (auto simp: is_digit_def value_start_def is_ws_def TAB_def LF_def CR_def)

lemma match_number_hd:
  assumes "match_number fr s = Some r"
  obtains c t where "s = c # t" and "c = CHR ''-'' \<or> is_digit c"
proof (cases s)
  case Nil
  with assms show ?thesis by (simp add: match_number_def match_integer_def Let_def)
next
  case (Cons c t)
  have "c = CHR ''-'' \<or> is_digit c"
  proof (rule ccontr)
    assume "\<not> (c = CHR ''-'' \<or> is_digit c)"
    then have "match_integer s = []"
      using Cons by (auto simp: match_integer_def is_digit_def)
    with \<open>\<not> (c = CHR ''-'' \<or> is_digit c)\<close> assms Cons show False
      by (simp add: match_number_def Let_def)
  qed
  with Cons that show ?thesis by blast
qed

lemma number_start:
  assumes "match_number fr s = Some r"
  obtains c t where "s = c # t" and "value_start c"
proof -
  from assms obtain c t where s: "s = c # t" and c: "c = CHR ''-'' \<or> is_digit c"
    by (rule match_number_hd)
  from c have "value_start c"
    by (auto simp: digit_start) (simp add: value_start_def is_ws_def TAB_def LF_def CR_def)
  with s that show ?thesis by blast
qed

lemma encode_start:
  assumes "wf_json fr v"
  obtains c t where "json_encode lvl v = c # t" and "value_start c"
proof (cases v)
  case (JInt i)
  have "match_number fr (str_int i) = Some (JInt i, [])" by (rule match_number_str_int)
  then obtain c t where "str_int i = c # t" "value_start c" by (rule number_start)
  with JInt that show ?thesis by simp
next
  case (JFloat s)
  consider "s = ''nan''" | "s = ''inf''" | "s = ''-inf''"
    | "s \<noteq> ''nan''" "s \<noteq> ''inf''" "s \<noteq> ''-inf''" "match_number fr s = Some (JFloat s, [])"
    using assms JFloat by auto
  then show ?thesis
  proof cases
    case 4
    then have fs: "floatstr s = s" by (simp add: floatstr_def)
    from 4 obtain c t where "s = c # t" "value_start c" by (auto elim: number_start)
    then have "json_encode lvl v = c # t" "value_start c" using JFloat fs by simp_all
    then show ?thesis by (rule that)
  qed (use JFloat that in \<open>simp_all add: floatstr_def value_start_def is_ws_def TAB_def LF_def CR_def\<close>)
next
  case (JBool b)
  with that show ?thesis
    by (cases b) (simp_all add: value_start_def is_ws_def TAB_def LF_def CR_def)
next
  case (JList xs)
  with that show ?thesis
    by (cases "xs = []") (simp_all add: value_start_def is_ws_def TAB_def LF_def CR_def)
next
  case (JDict kvs)
  with that show ?thesis
    by (cases "kvs = []") (simp_all add: value_start_def is_ws_def TAB_def LF_def CR_def)
qed (use that in \<open>auto simp: value_start_def is_ws_def TAB_def LF_def CR_def dquote_def
      encode_basestring_ascii_def\<close>)

lemma skip_ws_value: "wf_json fr v \<Longrightarrow> skip_ws (json_encode lvl v @ s) = json_encode lvl v @ s"
  by (erule encode_start [where lvl = lvl]) (simp add: skip_ws_start value_start_def)

lemma encode_nonempty: "wf_json fr v \<Longrightarrow> 0 < length (json_encode lvl v)"
  by (erule encode_start [where lvl = lvl]) simp

text \<open>How the scanner dispatches on the first character.\<close>

lemma scan_once_number:
  assumes "match_number fr s = Some r"
  shows "scan_once fr (Suc n) s = Some r"
proof -
  from assms obtain c t where s: "s = c # t" and c: "c = CHR ''-'' \<or> is_digit c"
    by (rule match_number_hd)
  from c have ne: "c \<noteq> dquote" "c \<noteq> CHR ''{''" "c \<noteq> CHR ''[''" "c \<noteq> CHR ''n''"
      "c \<noteq> CHR ''t''" "c \<noteq> CHR ''f''"
    by (auto simp: is_digit_def dquote_def)
  show ?thesis
    using assms ne by (simp add: s)
qed

lemma scan_once_null: "scan_once fr (Suc n) (''null'' @ rest) = Some (JNull, rest)"
  by (simp add: dquote_def)

lemma scan_once_true: "scan_once fr (Suc n) (''true'' @ rest) = Some (JBool True, rest)"
  by (simp add: dquote_def)

lemma scan_once_false: "scan_once fr (Suc n) (''false'' @ rest) = Some (JBool False, rest)"
  by (simp add: dquote_def)

lemma no_number:
  "match_number fr (''NaN'' @ rest) = None"
  "match_number fr (''Infinity'' @ rest) = None"
  "match_number fr (''-Infinity'' @ rest) = None"
  by (simp_all add: match_number_def match_integer_def is_digit_def Let_def)

lemma scan_once_nan: "scan_once fr (Suc n) (''NaN'' @ rest) = Some (JFloat ''nan'', rest)"
  using no_number(1) [of fr rest] by (simp add: dquote_def)

lemma scan_once_inf: "scan_once fr (Suc n) (''Infinity'' @ rest) = Some (JFloat ''inf'', rest)"
  using no_number(2) [of fr rest] by (simp add: dquote_def)

lemma scan_once_neg_inf: "scan_once fr (Suc n) (''-Infinity'' @ rest) = Some (JFloat ''-inf'', rest)"
  using no_number(3) [of fr rest] by (simp add: dquote_def)

lemma scan_once_string:
  "scan_once fr (Suc n) (encode_basestring_ascii s @ rest) = Some (JStr s, rest)"
  by (simp add: encode_basestring_ascii_def scanstring_concat)

lemma scan_once_empty_list: "scan_once fr (Suc n) (''[]'' @ rest) = Some (JList [], rest)"
  by (simp add: dquote_def skip_ws_start not_ws)

lemma scan_once_empty_dict: "scan_once fr (Suc n) (''{}'' @ rest) = Some (JDict [], rest)"
  by (simp add: dquote_def skip_ws_start not_ws)

lemma scan_once_array:
  assumes "value_start c"
  shows "scan_once fr (Suc m) (CHR ''['' # newline_indent l @ c # t) =
     (case parse_array fr m (c # t) of None \<Rightarrow> None | Some (vals, rest) \<Rightarrow> Some (JList vals, rest))"
  using assms by (simp add: dquote_def skip_ws_indent skip_ws_start value_start_def)

lemma scan_once_object:
  assumes "value_start c"
  shows "scan_once fr (Suc m) (CHR ''{'' # newline_indent l @ c # t) =
     (case parse_object fr m (c # t) of
        None \<Rightarrow> None
      | Some (pairs, rest) \<Rightarrow> Some (JDict (dict_of_pairs pairs), rest))"
  using assms by (simp add: dquote_def skip_ws_indent skip_ws_start value_start_def)

text \<open>A dictionary built from pairs with distinct keys is the list of the pairs.\<close>

lemma dict_set_new: "k \<notin> fst ` set d \<Longrightarrow> dict_set k v d = d @ [(k, v)]"
  by (induction d) auto

lemma foldl_dict_set:
  "distinct (map fst (d @ kvs)) \<Longrightarrow>
   foldl (\<lambda>d kv. dict_set (fst kv) (snd kv) d) d kvs = d @ kvs"
proof (induction kvs arbitrary: d)
  case Nil
  then show ?case by simp
next
  case (Cons kv kvs)
  then have "fst kv \<notin> fst ` set d" by auto
  then have "dict_set (fst kv) (snd kv) d = d @ [kv]" by (simp add: dict_set_new)
  with Cons show ?case by simp
qed

lemma dict_of_pairs_distinct: "distinct (map fst kvs) \<Longrightarrow> dict_of_pairs kvs = kvs"
  using foldl_dict_set [of "[]" kvs] by (simp add: dict_of_pairs_def)

lemma join_str_cons: "ys \<noteq> [] \<Longrightarrow> join_str sep (x # ys) = x @ sep @ join_str sep ys"
  by (cases ys) simp_all

lemma boundary_simps:
  "boundary (CHR '','' # s)" "boundary (newline_indent l @ s)" "boundary []"
  by (simp_all add: boundary_def newline_indent_def)

lemma skip_ws_close:
  "skip_ws (newline_indent l @ CHR '']'' # rest) = CHR '']'' # rest"
  "skip_ws (newline_indent l @ CHR ''}'' # rest) = CHR ''}'' # rest"
  by (simp_all add: skip_ws_indent skip_ws_start not_ws)

lemma parse_array_items:
  assumes "xs \<noteq> []"
    and "list_all (wf_json fr) xs"
    and "\<And>x n rest. x \<in> set xs \<Longrightarrow> length (json_encode (Suc l) x) \<le> n \<Longrightarrow> boundary rest \<Longrightarrow>
           scan_once fr n (json_encode (Suc l) x @ rest) = Some (x, rest)"
    and "length (join_str (CHR '','' # newline_indent (Suc l)) (map (json_encode (Suc l)) xs)) < n"
  shows "parse_array fr n
           (join_str (CHR '','' # newline_indent (Suc l)) (map (json_encode (Suc l)) xs)
            @ newline_indent l @ CHR '']'' # rest) = Some (xs, rest)"
  using assms
proof (induction xs arbitrary: n rule: list_nonempty_induct)
  case (single x)
  from single(3) obtain m where n: "n = Suc m" and m: "length (json_encode (Suc l) x) \<le> m"
    by (cases n) simp_all
  have "scan_once fr m (json_encode (Suc l) x @ newline_indent l @ CHR '']'' # rest) =
          Some (x, newline_indent l @ CHR '']'' # rest)"
    using m by (intro single(2)) (simp_all add: boundary_simps)
  then show ?case
    by (simp add: n skip_ws_close)
next
  case (cons x xs)
  let ?sep = "CHR '','' # newline_indent (Suc l)"
  let ?more = "join_str ?sep (map (json_encode (Suc l)) xs)"
  let ?tail = "newline_indent l @ CHR '']'' # rest"
  have j: "join_str ?sep (map (json_encode (Suc l)) (x # xs)) = json_encode (Suc l) x @ ?sep @ ?more"
    using cons(1) by (simp add: join_str_cons)
  have wfx: "wf_json fr x" and wfs: "list_all (wf_json fr) xs" using cons(3) by simp_all
  from cons(5) obtain m where n: "n = Suc m"
    and m: "length (json_encode (Suc l) x) + length ?sep + length ?more < Suc m"
    unfolding j by (cases n) simp_all
  have mx: "length (json_encode (Suc l) x) \<le> m" using m by simp
  have ms: "length ?more < m" using m encode_nonempty [OF wfx, of "Suc l"] by simp
  have first: "scan_once fr m (json_encode (Suc l) x @ CHR '','' # newline_indent (Suc l) @ ?more @ ?tail) =
          Some (x, CHR '','' # newline_indent (Suc l) @ ?more @ ?tail)"
    using mx by (intro cons(4)) (simp_all add: boundary_simps)
  obtain y ys where xs: "xs = y # ys" using cons(1) by (cases xs) auto
  have "wf_json fr y" using wfs xs by simp
  then obtain c t where ct: "json_encode (Suc l) y = c # t" and c: "value_start c"
    by (rule encode_start)
  have "\<exists>u. ?more = c # u"
    using ct xs by (cases ys) simp_all
  then obtain u where u: "?more = c # u" ..
  have sk: "skip_ws (newline_indent (Suc l) @ ?more @ ?tail) = ?more @ ?tail"
    using c by (simp add: u skip_ws_indent skip_ws_start value_start_def)
  have rest: "parse_array fr m (?more @ ?tail) = Some (xs, rest)"
    using wfs ms cons(4) by (intro cons(2)) simp_all
  show ?case
    unfolding j n
    by (simp add: first skip_ws_start not_ws sk rest)
qed

lemma parse_object_items:
  assumes "kvs \<noteq> []"
    and "list_all (\<lambda>kv. wf_json fr (snd kv)) kvs"
    and "\<And>kv n rest. kv \<in> set kvs \<Longrightarrow> length (json_encode (Suc l) (snd kv)) \<le> n \<Longrightarrow> boundary rest \<Longrightarrow>
           scan_once fr n (json_encode (Suc l) (snd kv) @ rest) = Some (snd kv, rest)"
    and "length (join_str (CHR '','' # newline_indent (Suc l))
           (map (\<lambda>kv. encode_basestring_ascii (fst kv) @ '': '' @ json_encode (Suc l) (snd kv)) kvs)) < n"
  shows "parse_object fr n
           (join_str (CHR '','' # newline_indent (Suc l))
              (map (\<lambda>kv. encode_basestring_ascii (fst kv) @ '': '' @ json_encode (Suc l) (snd kv)) kvs)
            @ newline_indent l @ CHR ''}'' # rest) = Some (kvs, rest)"
  using assms
proof (induction kvs arbitrary: n rule: list_nonempty_induct)
  case (single kv)
  let ?v = "json_encode (Suc l) (snd kv)"
  let ?tail = "newline_indent l @ CHR ''}'' # rest"
  have wfv: "wf_json fr (snd kv)" using single(1) by simp
  from single(3) obtain m where n: "n = Suc m" and m: "length ?v \<le> m"
    by (cases n) (simp_all add: encode_basestring_ascii_def)
  have key: "scanstring (concat (map escape_char (fst kv)) @ dquote # CHR '':'' # CHR '' '' # ?v @ ?tail) =
          Some (fst kv, CHR '':'' # CHR '' '' # ?v @ ?tail)"
    by (rule scanstring_concat)
  have val: "scan_once fr m (?v @ ?tail) = Some (snd kv, ?tail)"
    using m by (intro single(2)) (simp_all add: boundary_simps)
  show ?case
    by (simp add: n encode_basestring_ascii_def key skip_ws_start not_ws skip_ws_blank
        skip_ws_value [OF wfv] val skip_ws_close)
next
  case (cons kv kvs)
  let ?sep = "CHR '','' # newline_indent (Suc l)"
  let ?item = "\<lambda>kv. encode_basestring_ascii (fst kv) @ '': '' @ json_encode (Suc l) (snd kv)"
  let ?v = "json_encode (Suc l) (snd kv)"
  let ?tail = "newline_indent l @ CHR ''}'' # rest"
  define more where "more = join_str ?sep (map ?item kvs)"
  have j: "join_str ?sep (map ?item (kv # kvs)) = ?item kv @ ?sep @ more"
    using cons(1) by (simp add: join_str_cons more_def)
  have wfv: "wf_json fr (snd kv)" and wfs: "list_all (\<lambda>kv. wf_json fr (snd kv)) kvs"
    using cons(3) by simp_all
  from cons(5) obtain m where n: "n = Suc m"
    and m: "length (?item kv) + length ?sep + length more < Suc m"
    unfolding j by (cases n) simp_all
  have mv: "length ?v \<le> m" using m by simp
  have ms: "length more < m" using m by (simp add: encode_basestring_ascii_def)
  have key: "scanstring (concat (map escape_char (fst kv)) @ dquote # CHR '':'' # CHR '' '' # ?v
                @ CHR '','' # newline_indent (Suc l) @ more @ ?tail) =
          Some (fst kv, CHR '':'' # CHR '' '' # ?v @ CHR '','' # newline_indent (Suc l) @ more @ ?tail)"
    by (rule scanstring_concat)
  have val: "scan_once fr m (?v @ CHR '','' # newline_indent (Suc l) @ more @ ?tail) =
          Some (snd kv, CHR '','' # newline_indent (Suc l) @ more @ ?tail)"
    using mv by (intro cons(4)) (simp_all add: boundary_simps)
  obtain y ys where kvs: "kvs = y # ys" using cons(1) by (cases kvs) auto
  have "\<exists>u. more = dquote # u"
    using kvs by (cases ys) (simp_all add: encode_basestring_ascii_def more_def)
  then obtain u where u: "more = dquote # u" ..
  have sk: "skip_ws (newline_indent (Suc l) @ more @ ?tail) = more @ ?tail"
    unfolding u by (simp add: skip_ws_indent skip_ws_start not_ws)
  have rest: "parse_object fr m (more @ ?tail) = Some (kvs, rest)"
    unfolding more_def using wfs ms [unfolded more_def] cons(4) by (intro cons(2)) simp_all
  show ?case
    unfolding j n
    by (simp add: encode_basestring_ascii_def key skip_ws_start not_ws skip_ws_blank
        skip_ws_value [OF wfv] val sk rest)
qed

lemma items_start:
  assumes "xs \<noteq> []" and "list_all (wf_json fr) xs"
  obtains c t where "join_str sep (map (json_encode l) xs) = c # t" and "value_start c"
proof -
  obtain y ys where xs: "xs = y # ys" using assms(1) by (cases xs) auto
  have "wf_json fr y" using assms(2) xs by simp
  then obtain c t where ct: "json_encode l y = c # t" and c: "value_start c"
    by (rule encode_start)
  have "\<exists>u. join_str sep (map (json_encode l) xs) = c # u"
    using ct xs by (cases ys) simp_all
  with c that show ?thesis by blast
qed

lemma pairs_start:
  assumes "kvs \<noteq> []"
  obtains t where
    "join_str sep (map (\<lambda>kv. encode_basestring_ascii (fst kv) @ '': '' @ json_encode l (snd kv)) kvs) = dquote # t"
proof -
  obtain y ys where "kvs = y # ys" using assms by (cases kvs) auto
  then have "\<exists>u. join_str sep (map (\<lambda>kv. encode_basestring_ascii (fst kv) @ '': '' @ json_encode l (snd kv)) kvs) = dquote # u"
    by (cases ys) (simp_all add: encode_basestring_ascii_def)
  with that show ?thesis by blast
qed

lemma value_start_dquote: "value_start dquote"
  by (simp add: value_start_def is_ws_def dquote_def TAB_def LF_def CR_def)

lemma scan_once_encode:
  assumes "wf_json fr v" and "length (json_encode lvl v) \<le> n" and "boundary rest"
  shows "scan_once fr n (json_encode lvl v @ rest) = Some (v, rest)"
  using assms
proof (induction v arbitrary: lvl n rest)
  case JNull
  then obtain m where "n = Suc m" by (cases n) simp_all
  then show ?case by (simp only: json_encode.simps scan_once_null)
next
  case (JBool b)
  then obtain m where "n = Suc m" by (cases n; cases b) simp_all
  then show ?case by (cases b) (simp_all only: json_encode.simps if_True if_False scan_once_true scan_once_false)
next
  case (JInt i)
  have pos: "0 < length (str_int i)"
    using encode_nonempty [of fr "JInt i" lvl] by simp
  with JInt(2) obtain m where n: "n = Suc m" by (cases n) simp_all
  have "match_number fr (str_int i @ rest) = Some (JInt i, [] @ rest)"
    using JInt(3) match_number_str_int by (rule match_number_append)
  then have "scan_once fr (Suc m) (str_int i @ rest) = Some (JInt i, [] @ rest)"
    by (rule scan_once_number)
  then show ?case unfolding n json_encode.simps by (simp only: append_Nil)
next
  case (JFloat s)
  have pos: "0 < length (floatstr s)"
    using encode_nonempty [OF JFloat(1), of lvl] by simp
  with JFloat(2) obtain m where n: "n = Suc m" by (cases n) simp_all
  consider "s = ''nan''" | "s = ''inf''" | "s = ''-inf''"
    | "s \<noteq> ''nan''" "s \<noteq> ''inf''" "s \<noteq> ''-inf''" "match_number fr s = Some (JFloat s, [])"
    using JFloat(1) by auto
  then show ?case
  proof cases
    case 1
    then have "json_encode lvl (JFloat s) = ''NaN''" by (simp add: floatstr_def)
    then show ?thesis unfolding n using 1 by (simp only: scan_once_nan)
  next
    case 2
    then have "json_encode lvl (JFloat s) = ''Infinity''" by (simp add: floatstr_def)
    then show ?thesis unfolding n using 2 by (simp only: scan_once_inf)
  next
    case 3
    then have "json_encode lvl (JFloat s) = ''-Infinity''" by (simp add: floatstr_def)
    then show ?thesis unfolding n using 3 by (simp only: scan_once_neg_inf)
  next
    case 4
    then have e: "json_encode lvl (JFloat s) = s" by (simp add: floatstr_def)
    have "match_number fr (s @ rest) = Some (JFloat s, [] @ rest)"
      using JFloat(3) 4(4) by (rule match_number_append)
    then have "scan_once fr (Suc m) (s @ rest) = Some (JFloat s, [] @ rest)"
      by (rule scan_once_number)
    then show ?thesis unfolding n e by (simp only: append_Nil)
  qed
next
  case (JStr s)
  then obtain m where "n = Suc m" by (cases n) (simp_all add: encode_basestring_ascii_def)
  then show ?case by (simp only: json_encode.simps scan_once_string)
next
  case (JList xs)
  show ?case
  proof (cases "xs = []")
    case True
    have e: "json_encode lvl (JList []) = ''[]''" by simp
    from True JList(3) obtain m where n: "n = Suc m" by (cases n) simp_all
    show ?thesis unfolding e n True by (rule scan_once_empty_list)
  next
    case False
    let ?join = "join_str (CHR '','' # newline_indent (Suc lvl)) (map (json_encode (Suc lvl)) xs)"
    let ?tail = "newline_indent lvl @ CHR '']'' # rest"
    have wfs: "list_all (wf_json fr) xs" using JList(2) by simp
    have enc: "json_encode lvl (JList xs) @ rest = CHR ''['' # newline_indent (Suc lvl) @ ?join @ ?tail"
      using False by simp
    have len: "length (json_encode lvl (JList xs)) =
                 2 + length (newline_indent (Suc lvl)) + length ?join + length (newline_indent lvl)"
      using False by simp
    from JList(3) obtain m where n: "n = Suc m" and m: "length ?join < m"
      unfolding len by (cases n) (simp_all add: newline_indent_def)
    have items: "parse_array fr m (?join @ ?tail) = Some (xs, rest)"
    proof (rule parse_array_items [OF False wfs _ m])
      fix x k r
      assume "x \<in> set xs" "length (json_encode (Suc lvl) x) \<le> k" "boundary r"
      moreover from \<open>x \<in> set xs\<close> wfs have "wf_json fr x" by (simp add: list_all_iff)
      ultimately show "scan_once fr k (json_encode (Suc lvl) x @ r) = Some (x, r)"
        by (intro JList(1))
    qed
    obtain c t where ct: "?join = c # t" and c: "value_start c"
      using False wfs by (rule items_start)
    have "scan_once fr (Suc m) (CHR ''['' # newline_indent (Suc lvl) @ c # (t @ ?tail)) =
            (case parse_array fr m (c # (t @ ?tail)) of
               None \<Rightarrow> None | Some (vals, rest) \<Rightarrow> Some (JList vals, rest))"
      using c by (rule scan_once_array)
    moreover have "c # (t @ ?tail) = ?join @ ?tail" by (simp add: ct)
    ultimately have "scan_once fr (Suc m) (CHR ''['' # newline_indent (Suc lvl) @ ?join @ ?tail) =
            Some (JList xs, rest)"
      by (simp only: items option.case prod.case)
    then show ?thesis by (simp only: enc n)
  qed
next
  case (JDict kvs)
  show ?case
  proof (cases "kvs = []")
    case True
    have e: "json_encode lvl (JDict []) = ''{}''" by simp
    from True JDict(3) obtain m where n: "n = Suc m" by (cases n) simp_all
    show ?thesis unfolding e n True by (rule scan_once_empty_dict)
  next
    case False
    let ?item = "\<lambda>kv. encode_basestring_ascii (fst kv) @ '': '' @ json_encode (Suc lvl) (snd kv)"
    let ?join = "join_str (CHR '','' # newline_indent (Suc lvl)) (map ?item kvs)"
    let ?tail = "newline_indent lvl @ CHR ''}'' # rest"
    have wfs: "list_all (\<lambda>kv. wf_json fr (snd kv)) kvs" and dist: "distinct (map fst kvs)"
      using JDict(2) by simp_all
    have enc: "json_encode lvl (JDict kvs) @ rest = CHR ''{'' # newline_indent (Suc lvl) @ ?join @ ?tail"
      using False by simp
    have len: "length (json_encode lvl (JDict kvs)) =
                 2 + length (newline_indent (Suc lvl)) + length ?join + length (newline_indent lvl)"
      using False by simp
    from JDict(3) obtain m where n: "n = Suc m" and m: "length ?join < m"
      unfolding len by (cases n) (simp_all add: newline_indent_def)
    have items: "parse_object fr m (?join @ ?tail) = Some (kvs, rest)"
    proof (rule parse_object_items [OF False wfs _ m])
      fix kv k r
      assume kv: "kv \<in> set kvs" and "length (json_encode (Suc lvl) (snd kv)) \<le> k" "boundary r"
      moreover from kv wfs have "wf_json fr (snd kv)" by (simp add: list_all_iff)
      moreover have "snd kv \<in> Basic_BNFs.snds kv" by (cases kv) simp
      ultimately show "scan_once fr k (json_encode (Suc lvl) (snd kv) @ r) = Some (snd kv, r)"
        by (intro JDict(1))
    qed
    obtain t where ct: "?join = dquote # t"
      using False by (rule pairs_start)
    have "scan_once fr (Suc m) (CHR ''{'' # newline_indent (Suc lvl) @ dquote # (t @ ?tail)) =
            (case parse_object fr m (dquote # (t @ ?tail)) of
               None \<Rightarrow> None | Some (pairs, rest) \<Rightarrow> Some (JDict (dict_of_pairs pairs), rest))"
      using value_start_dquote by (rule scan_once_object)
    moreover have "dquote # (t @ ?tail) = ?join @ ?tail" unfolding ct by simp
    ultimately have "scan_once fr (Suc m) (CHR ''{'' # newline_indent (Suc lvl) @ ?join @ ?tail) =
            Some (JDict kvs, rest)"
      by (simp only: items option.case prod.case dict_of_pairs_distinct [OF dist])
    then show ?thesis by (simp only: enc n)
  qed
qed

lemma json_loads_dumps: "wf_json fr v \<Longrightarrow> json_loads fr (json_dumps v) = Some v"
proof -
  assume wf: "wf_json fr v"
  have "scan_once fr (length (json_encode 0 v)) (json_encode 0 v @ []) = Some (v, [])"
    using wf by (intro scan_once_encode) (simp_all add: boundary_simps)
  moreover have "skip_ws (json_encode 0 v) = json_encode 0 v"
    using skip_ws_value [OF wf, of 0 "[]"] by simp
  ultimately show ?thesis
    by (simp add: json_loads_def json_dumps_def skip_ws_def)
qed

text \<open>
  Claim C8. For every payload as Python has it, when the target is a JSON file that can
  be opened, \<^verbatim>\<open>dump_output\<close> returns, the file holds the encoder's text, and reading
  the file back with the decoder gives the payload itself: same keys in the same
  order, same values, same nesting.
\<close>

theorem json_file_round_trip:
  assumes "select_target (output c) = JsonFile path" and "open_error w path = None"
    and "wf_json float_repr payload"
  shows "dump_output c payload w = Return (w\<lparr>files := (files w)(path \<mapsto> json_dumps payload)\<rparr>)
       \<and> read_json float_repr path (final (dump_output c payload w)) = Some payload"
  using assms
  by (simp add: dump_output_select write_json_def open_w_def fwrite_def read_json_def
      json_loads_dumps)

text \<open>A mapping with an integer, a string, a float and a nested list, written to \<^verbatim>\<open>out.json\<close>.\<close>

theorem json_file_round_trip_witness:
  "select_target (output (getter (Some ''out.json''))) = JsonFile ''out.json''
   \<and> open_error w_init ''out.json'' = None
   \<and> wf_json (\<lambda>s. s) measured
   \<and> read_json (\<lambda>s. s) ''out.json'' (final (dump_output (getter (Some ''out.json'')) measured w_init)) =
       Some measured"
proof -
  have t: "select_target (output (getter (Some ''out.json''))) = JsonFile ''out.json''"
    by (simp add: select_target_def getter_def endswith_def)
  have o: "open_error w_init ''out.json'' = None" by (simp add: w_init_def)
  have f: "match_number (\<lambda>s. s) ''1.5'' = Some (JFloat ''1.5'', [])" by code_simp
  have wf: "wf_json (\<lambda>s. s) measured" by (simp add: measured_def f)
  show ?thesis
    using json_file_round_trip [OF t o wf, THEN conjunct2] t o wf by (simp only: simp_thms)
qed

end
